theory Spec2Isabelle
  imports Complex_Main "HOL-Library.Word" "HOL-Library.Log_Nat"
begin

section \<open>JavaScript strings\<close>

text \<open>
  A JavaScript string is a sequence of 16-bit code units. The token typed by the user,
  the segments, the output of \<^verbatim>\<open>atob\<close> and every JSON string are such sequences.
  \<open>js\<close> embeds an ASCII literal, so that inputs can be written readably.
\<close>

type_synonym cu = "16 word"
type_synonym jsstring = "cu list"

definition js :: "string \<Rightarrow> jsstring" where
  "js s = map (\<lambda>c. of_nat (of_char c)) s"

text \<open>
  \<^verbatim>\<open>String.prototype.trim\<close> removes the code units of WhiteSpace and LineTerminator
  (ECMA-262, 22.1.3.32) from both ends.
\<close>

definition is_js_whitespace :: "cu \<Rightarrow> bool" where
  "is_js_whitespace c \<longleftrightarrow>
     c \<in> {0x0009, 0x000A, 0x000B, 0x000C, 0x000D, 0x0020, 0x00A0, 0x1680,
          0x2028, 0x2029, 0x202F, 0x205F, 0x3000, 0xFEFF}
     \<or> (0x2000 \<le> c \<and> c \<le> 0x200A)"

definition trim :: "jsstring \<Rightarrow> jsstring" where
  "trim s = rev (dropWhile is_js_whitespace (rev (dropWhile is_js_whitespace s)))"

text \<open>
  \<^verbatim>\<open>s.split(d)\<close> for a separator of one code unit: the pieces between the occurrences
  of \<open>d\<close>. The empty string splits into one empty piece.
\<close>

fun split :: "cu \<Rightarrow> jsstring \<Rightarrow> jsstring list" where
  "split d [] = [[]]"
| "split d (c # cs) =
     (if c = d then [] # split d cs
      else (case split d cs of
              [] \<Rightarrow> [[c]]
            | p # ps \<Rightarrow> (c # p) # ps))"

section \<open>base64UrlDecode\<close>

datatype js_error =
    Error jsstring
  | InvalidCharacterError
  | SyntaxError
  | TypeError

text \<open>\<^verbatim>\<open>str.replace(/-/g, "+")\<close> and \<^verbatim>\<open>.replace(/_/g, "/")\<close>.\<close>

definition replace_all :: "cu \<Rightarrow> cu \<Rightarrow> jsstring \<Rightarrow> jsstring" where
  "replace_all a b s = map (\<lambda>c. if c = a then b else c) s"

text \<open>\<^verbatim>\<open>while (base64.length % 4) { base64 += "="; }\<close>\<close>

function pad_loop :: "jsstring \<Rightarrow> jsstring" where
  "pad_loop base64 =
     (if length base64 mod 4 \<noteq> 0 then pad_loop (base64 @ [0x3D]) else base64)"
  by pat_completeness auto
termination
proof (relation "measure (\<lambda>s. (4 - length s mod 4) mod 4)", goal_cases)
  case 1
  show ?case by simp
next
  case (2 base64)
  have "length base64 mod 4 < 4" by simp
  with 2 show ?case by (simp add: mod_Suc) linarith
qed

declare pad_loop.simps [simp del]

text \<open>
  \<^verbatim>\<open>atob\<close> is the forgiving-base64 decode of the WHATWG Infra standard: ASCII whitespace
  is removed; if the length is then a multiple of 4, one or two trailing \<^verbatim>\<open>=\<close> are
  removed; a length of 1 modulo 4 and any code unit outside the base64 alphabet are
  failures (\<^verbatim>\<open>atob\<close> throws InvalidCharacterError); the remaining code units are read as
  groups of 6 bits, 24 bits giving 3 bytes, a rest of 12 bits giving 1 byte and a rest of
  18 bits giving 2 bytes. The result is the string whose code units are those bytes.
\<close>

definition is_ascii_whitespace :: "cu \<Rightarrow> bool" where
  "is_ascii_whitespace c \<longleftrightarrow> c \<in> {0x09, 0x0A, 0x0C, 0x0D, 0x20}"

definition b64_index :: "cu \<Rightarrow> int option" where
  "b64_index c =
     (if 0x41 \<le> c \<and> c \<le> 0x5A then Some (uint c - 0x41)
      else if 0x61 \<le> c \<and> c \<le> 0x7A then Some (uint c - 0x61 + 26)
      else if 0x30 \<le> c \<and> c \<le> 0x39 then Some (uint c - 0x30 + 52)
      else if c = 0x2B then Some 62
      else if c = 0x2F then Some 63
      else None)"

definition strip_padding :: "jsstring \<Rightarrow> jsstring" where
  "strip_padding s =
     (if length s mod 4 = 0 then
        (case rev s of
           a # b # r \<Rightarrow> if a = 0x3D \<and> b = 0x3D then rev r else if a = 0x3D then rev (b # r) else s
         | _ \<Rightarrow> s)
      else s)"

fun b64_bytes :: "int list \<Rightarrow> int list" where
  "b64_bytes (a # b # c # d # rest) =
     (let n = ((a * 64 + b) * 64 + c) * 64 + d
      in n div 65536 # (n div 256) mod 256 # n mod 256 # b64_bytes rest)"
| "b64_bytes [a, b, c] =
     (let n = ((a * 64 + b) * 64 + c) div 4
      in [n div 256, n mod 256])"
| "b64_bytes [a, b] = [(a * 64 + b) div 16]"
| "b64_bytes _ = []"

definition atob :: "jsstring \<Rightarrow> js_error + jsstring" where
  "atob data =
     (let d = strip_padding (filter (\<lambda>c. \<not> is_ascii_whitespace c) data)
      in if length d mod 4 = 1 then Inl InvalidCharacterError
         else if \<exists>c \<in> set d. b64_index c = None then Inl InvalidCharacterError
         else Inr (map of_int (b64_bytes (map (\<lambda>c. the (b64_index c)) d))))"

text \<open>
  \<^verbatim>\<open>base64UrlDecode\<close>: the two replacements, the padding loop, and \<^verbatim>\<open>atob\<close> inside a
  \<^verbatim>\<open>try\<close> whose \<^verbatim>\<open>catch\<close> throws \<^verbatim>\<open>new Error("Invalid base64 encoding")\<close>.
\<close>

definition base64UrlDecode :: "jsstring \<Rightarrow> js_error + jsstring" where
  "base64UrlDecode str =
     (let base64 = pad_loop (replace_all 0x5F 0x2F (replace_all 0x2D 0x2B str))
      in case atob base64 of
           Inl _ \<Rightarrow> Inl (Error (js ''Invalid base64 encoding''))
         | Inr s \<Rightarrow> Inr s)"

section \<open>Numbers\<close>

text \<open>
  A JavaScript Number is an IEEE 754 binary64 value. \<open>Fin r\<close> is the finite value \<open>r\<close>, a
  rational that binary64 represents exactly; the two zeros are not distinguished (no
  operation below tells them apart). \<open>fl\<close> rounds a rational to the nearest binary64
  value, ties to even: with \<open>e = max \<lfloor>log\<^sub>2 \<bar>r\<bar>\<rfloor> (-1022)\<close>, the values around \<open>r\<close> are the
  multiples of \<open>u = 2 ^ (e - 52)\<close>, and \<open>r\<close> rounds to \<open>m * u\<close> for the whole number \<open>m\<close>
  nearest to \<open>\<bar>r\<bar> / u\<close>, which is at most \<open>2 ^ 53\<close>. The result is an infinity when it
  reaches \<open>2 ^ 1024\<close>, that is, when \<open>e\<close> is 1024 or more, or 1023 with \<open>m = 2 ^ 53\<close>.
\<close>

datatype jsnum = NaN | PosInf | NegInf | Fin rat

definition pow2 :: "int \<Rightarrow> rat" where
  "pow2 k = (if 0 \<le> k then of_int (2 ^ nat k) else 1 / of_int (2 ^ nat (- k)))"

definition pow10 :: "int \<Rightarrow> rat" where
  "pow10 k = (if 0 \<le> k then of_int (10 ^ nat k) else 1 / of_int (10 ^ nat (- k)))"

definition floor_log2 :: "rat \<Rightarrow> int" where
  "floor_log2 a =
     (let (p, q) = quotient_of a; k = bitlen p - bitlen q
      in if pow2 k \<le> a then k else k - 1)"

definition round_half_even :: "rat \<Rightarrow> int" where
  "round_half_even x =
     (let f = \<lfloor>x\<rfloor>; d = x - of_int f
      in if d < 1 / 2 then f
         else if 1 / 2 < d then f + 1
         else if even f then f else f + 1)"

definition fl :: "rat \<Rightarrow> jsnum" where
  "fl r =
     (if r = 0 then Fin 0
      else
        let a = \<bar>r\<bar>;
            e = max (floor_log2 a) (- 1022);
            u = pow2 (e - 52);
            m = round_half_even (a / u)
        in if 1024 \<le> e \<or> (e = 1023 \<and> m = 2 ^ 53) then (if r < 0 then NegInf else PosInf)
           else Fin (if r < 0 then - (of_int m * u) else of_int m * u))"

text \<open>The product \<^verbatim>\<open>x * 1000\<close> of Numbers.\<close>

definition times_1000 :: "jsnum \<Rightarrow> jsnum" where
  "times_1000 x = (case x of Fin r \<Rightarrow> fl (r * 1000) | _ \<Rightarrow> x)"

subsection \<open>Decimal digits\<close>

definition is_digit :: "cu \<Rightarrow> bool" where
  "is_digit c \<longleftrightarrow> 0x30 \<le> c \<and> c \<le> 0x39"

definition digits_value :: "jsstring \<Rightarrow> int" where
  "digits_value ds = foldl (\<lambda>a c. 10 * a + (uint c - 0x30)) 0 ds"

text \<open>
  The mathematical value of \<open>ip.fp\<close> times ten to the \<open>ex\<close>, where \<open>ip\<close> and \<open>fp\<close> are the
  digits before and after the point.
\<close>

definition decimal_value :: "jsstring \<Rightarrow> jsstring \<Rightarrow> int \<Rightarrow> rat" where
  "decimal_value ip fp ex =
     (of_int (digits_value ip) + of_int (digits_value fp) * pow10 (- int (length fp))) * pow10 ex"

text \<open>
  An exponent part: \<^verbatim>\<open>e\<close> or \<^verbatim>\<open>E\<close>, an optional sign, one digit or more. \<open>None\<close> when the
  text starts with \<^verbatim>\<open>e\<close> or \<^verbatim>\<open>E\<close> and no well-formed exponent follows; an exponent of 0
  and the text itself when it does not start with \<^verbatim>\<open>e\<close> or \<^verbatim>\<open>E\<close>.
\<close>

definition scan_exponent :: "jsstring \<Rightarrow> (int \<times> jsstring) option" where
  "scan_exponent s =
     (case s of
        [] \<Rightarrow> Some (0, s)
      | c # t \<Rightarrow>
          if c = 0x65 \<or> c = 0x45 then
            (let (neg, t') = (case t of
                                [] \<Rightarrow> (False, t)
                              | g # u \<Rightarrow> if g = 0x2D then (True, u)
                                         else if g = 0x2B then (False, u) else (False, t));
                 ds = takeWhile is_digit t'
             in if ds = [] then None
                else Some (if neg then - digits_value ds else digits_value ds,
                           dropWhile is_digit t'))
          else Some (0, s))"

section \<open>JSON values and JSON.parse\<close>

text \<open>
  The values \<^verbatim>\<open>JSON.parse\<close> can return. An object is the list of its own properties;
  a property that occurs twice in the text keeps its first position and its last value.
  (The enumeration order of integer-like keys is not modelled: nothing below depends on
  the order.)
\<close>

datatype json =
    JNull
  | JBool bool
  | JNum jsnum
  | JStr jsstring
  | JArr "json list"
  | JObj "(jsstring \<times> json) list"

fun obj_put :: "(jsstring \<times> json) list \<Rightarrow> jsstring \<Rightarrow> json \<Rightarrow> (jsstring \<times> json) list" where
  "obj_put [] k v = [(k, v)]"
| "obj_put ((k', v') # kvs) k v =
     (if k' = k then (k, v) # kvs else (k', v') # obj_put kvs k v)"

definition is_json_whitespace :: "cu \<Rightarrow> bool" where
  "is_json_whitespace c \<longleftrightarrow> c \<in> {0x09, 0x0A, 0x0D, 0x20}"

definition skip_ws :: "jsstring \<Rightarrow> jsstring" where
  "skip_ws s = dropWhile is_json_whitespace s"

fun strip_prefix :: "jsstring \<Rightarrow> jsstring \<Rightarrow> jsstring option" where
  "strip_prefix [] s = Some s"
| "strip_prefix (p # ps) [] = None"
| "strip_prefix (p # ps) (c # cs) = (if p = c then strip_prefix ps cs else None)"

subsection \<open>Strings\<close>

definition hex_value :: "cu \<Rightarrow> int option" where
  "hex_value c =
     (if 0x30 \<le> c \<and> c \<le> 0x39 then Some (uint c - 0x30)
      else if 0x41 \<le> c \<and> c \<le> 0x46 then Some (uint c - 0x41 + 10)
      else if 0x61 \<le> c \<and> c \<le> 0x66 then Some (uint c - 0x61 + 10)
      else None)"

definition hex4 :: "cu \<Rightarrow> cu \<Rightarrow> cu \<Rightarrow> cu \<Rightarrow> cu option" where
  "hex4 a b c d =
     (case (hex_value a, hex_value b, hex_value c, hex_value d) of
        (Some x, Some y, Some z, Some w) \<Rightarrow> Some (of_int (((x * 16 + y) * 16 + z) * 16 + w))
      | _ \<Rightarrow> None)"

definition escape_char :: "cu \<Rightarrow> cu option" where
  "escape_char e =
     (if e = 0x22 \<or> e = 0x5C \<or> e = 0x2F then Some e
      else if e = 0x62 then Some 0x08
      else if e = 0x66 then Some 0x0C
      else if e = 0x6E then Some 0x0A
      else if e = 0x72 then Some 0x0D
      else if e = 0x74 then Some 0x09
      else None)"

text \<open>
  The text after an opening quotation mark: the string's code units and the text after
  the closing mark. A control character below U+0020, an unknown escape and a missing
  closing mark are syntax errors.
\<close>

fun parse_string_body :: "jsstring \<Rightarrow> (jsstring \<times> jsstring) option" where
  "parse_string_body [] = None"
| "parse_string_body (c # cs) =
     (if c = 0x22 then Some ([], cs)
      else if c = 0x5C then
        (case cs of
           [] \<Rightarrow> None
         | e # r \<Rightarrow>
             if e = 0x75 then
               (case r of
                  h1 # h2 # h3 # h4 # r' \<Rightarrow>
                    (case hex4 h1 h2 h3 h4 of
                       None \<Rightarrow> None
                     | Some u \<Rightarrow> map_option (apfst ((#) u)) (parse_string_body r'))
                | _ \<Rightarrow> None)
             else
               (case escape_char e of
                  None \<Rightarrow> None
                | Some u \<Rightarrow> map_option (apfst ((#) u)) (parse_string_body r)))
      else if c < 0x20 then None
      else map_option (apfst ((#) c)) (parse_string_body cs))"

subsection \<open>Numbers\<close>

text \<open>
  A JSON number: an optional minus sign; \<^verbatim>\<open>0\<close>, or a digit from 1 to 9 and further digits;
  an optional fraction of a point and one digit or more; an optional exponent. Its value
  is rounded to a Number.
\<close>

definition scan_minus :: "jsstring \<Rightarrow> bool \<times> jsstring" where
  "scan_minus s =
     (case s of
        [] \<Rightarrow> (False, s)
      | c # t \<Rightarrow> if c = 0x2D then (True, t) else (False, s))"

definition scan_int :: "jsstring \<Rightarrow> jsstring \<times> jsstring" where
  "scan_int s =
     (case s of
        [] \<Rightarrow> ([], s)
      | c # t \<Rightarrow> if c = 0x30 then ([c], t)
                 else (takeWhile is_digit s, dropWhile is_digit s))"

definition scan_fraction :: "jsstring \<Rightarrow> (jsstring \<times> jsstring) option" where
  "scan_fraction s =
     (case s of
        [] \<Rightarrow> Some ([], s)
      | c # t \<Rightarrow>
          if c = 0x2E then
            (if takeWhile is_digit t = [] then None
             else Some (takeWhile is_digit t, dropWhile is_digit t))
          else Some ([], s))"

definition parse_number :: "jsstring \<Rightarrow> (json \<times> jsstring) option" where
  "parse_number s =
     (let (neg, s1) = scan_minus s;
          (ip, s2) = scan_int s1
      in if ip = [] then None
         else
           (case scan_fraction s2 of
              None \<Rightarrow> None
            | Some (fp, s3) \<Rightarrow>
                (case scan_exponent s3 of
                   None \<Rightarrow> None
                 | Some (ex, s4) \<Rightarrow>
                     Some (JNum (fl ((if neg then - 1 else 1) * decimal_value ip fp ex)), s4))))"

subsection \<open>Values\<close>

text \<open>
  A recursive-descent parser for the JSON grammar. Each function returns the value and
  the text that follows it. \<open>parse_elements\<close> reads the elements of an array after the
  opening bracket, \<open>parse_members\<close> the members of an object after the opening brace;
  both carry what they have read so far. The tests \<open>length r < length s\<close> before a
  continuation hold always (\<open>parse_shorter\<close> below, with the equations \<open>parse_elements_unfold\<close>
  and \<open>parse_members_unfold\<close> that do without them); they are what makes the recursion
  well-founded.
\<close>

function parse_value :: "jsstring \<Rightarrow> (json \<times> jsstring) option"
  and parse_elements :: "jsstring \<Rightarrow> json list \<Rightarrow> (json \<times> jsstring) option"
  and parse_members :: "jsstring \<Rightarrow> (jsstring \<times> json) list \<Rightarrow> (json \<times> jsstring) option"
where
  "parse_value s =
     (case skip_ws s of
        [] \<Rightarrow> None
      | c # cs \<Rightarrow>
          if c = 0x7B then
            (case skip_ws cs of
               [] \<Rightarrow> None
             | d # r \<Rightarrow> if d = 0x7D then Some (JObj [], r) else parse_members cs [])
          else if c = 0x5B then
            (case skip_ws cs of
               [] \<Rightarrow> None
             | d # r \<Rightarrow> if d = 0x5D then Some (JArr [], r) else parse_elements cs [])
          else if c = 0x22 then map_option (apfst JStr) (parse_string_body cs)
          else if c = 0x74 then map_option (Pair (JBool True)) (strip_prefix (js ''rue'') cs)
          else if c = 0x66 then map_option (Pair (JBool False)) (strip_prefix (js ''alse'') cs)
          else if c = 0x6E then map_option (Pair JNull) (strip_prefix (js ''ull'') cs)
          else if c = 0x2D \<or> is_digit c then parse_number (c # cs)
          else None)"
| "parse_elements s acc =
     (case parse_value s of
        None \<Rightarrow> None
      | Some (v, r) \<Rightarrow>
          (case skip_ws r of
             [] \<Rightarrow> None
           | c # r' \<Rightarrow>
               if c = 0x2C then
                 (if length r' < length s then parse_elements r' (acc @ [v]) else None)
               else if c = 0x5D then Some (JArr (acc @ [v]), r')
               else None))"
| "parse_members s acc =
     (case skip_ws s of
        [] \<Rightarrow> None
      | q # s1 \<Rightarrow>
          if q = 0x22 then
            (case parse_string_body s1 of
               None \<Rightarrow> None
             | Some (k, s2) \<Rightarrow>
                 (case skip_ws s2 of
                    [] \<Rightarrow> None
                  | c # s3 \<Rightarrow>
                      if c = 0x3A \<and> length s3 < length s then
                        (case parse_value s3 of
                           None \<Rightarrow> None
                         | Some (v, r) \<Rightarrow>
                             (case skip_ws r of
                                [] \<Rightarrow> None
                              | d # r' \<Rightarrow>
                                  if d = 0x2C then
                                    (if length r' < length s
                                     then parse_members r' (obj_put acc k v) else None)
                                  else if d = 0x7D then Some (JObj (obj_put acc k v), r')
                                  else None))
                      else None))
          else None)"
  by pat_completeness auto

termination
proof -
  have skip: "length cs < length s" if "skip_ws s = c # cs" for s c cs
  proof -
    have "length (skip_ws s) \<le> length s"
      by (simp add: skip_ws_def length_dropWhile_le)
    with that show ?thesis by simp
  qed
  show ?thesis
    by (relation "measure (\<lambda>x. case x of
           Inl s \<Rightarrow> 2 * length s
         | Inr (Inl (s, acc)) \<Rightarrow> 2 * length s + 1
         | Inr (Inr (s, acc)) \<Rightarrow> 2 * length s + 1)")
       (auto dest: skip)
qed

declare parse_value.simps [simp del] parse_elements.simps [simp del] parse_members.simps [simp del]

text \<open>
  \<^verbatim>\<open>JSON.parse(text)\<close>: one value, with JSON whitespace allowed around it; anything else
  throws a SyntaxError.
\<close>

definition JSON_parse :: "jsstring \<Rightarrow> js_error + json" where
  "JSON_parse text =
     (case parse_value text of
        None \<Rightarrow> Inl SyntaxError
      | Some (v, r) \<Rightarrow> if skip_ws r = [] then Inr v else Inl SyntaxError)"

section \<open>Type conversion and property access\<close>

text \<open>
  StringToNumber (ECMA-262, 7.1.4.1.1): white space around the literal is ignored; the
  empty text is 0; a literal is \<^verbatim>\<open>0x\<close>, \<^verbatim>\<open>0o\<close> or \<^verbatim>\<open>0b\<close> with digits of that radix, or an
  optionally signed \<^verbatim>\<open>Infinity\<close> or decimal literal (digits, a point, digits, an exponent,
  with digits on one side of the point at least); everything else is \<open>NaN\<close>.
\<close>

definition radix_value :: "int \<Rightarrow> jsstring \<Rightarrow> int option" where
  "radix_value b ds =
     (if ds \<noteq> [] \<and> (\<forall>c \<in> set ds. case hex_value c of None \<Rightarrow> False | Some d \<Rightarrow> d < b)
      then Some (foldl (\<lambda>a c. b * a + the (hex_value c)) 0 ds)
      else None)"

definition radix_of :: "cu \<Rightarrow> int option" where
  "radix_of c =
     (if c = 0x78 \<or> c = 0x58 then Some 16
      else if c = 0x6F \<or> c = 0x4F then Some 8
      else if c = 0x62 \<or> c = 0x42 then Some 2
      else None)"

definition unsigned_decimal :: "jsstring \<Rightarrow> rat option" where
  "unsigned_decimal s =
     (let ip = takeWhile is_digit s;
          s1 = dropWhile is_digit s;
          (dot, s2) = (case s1 of
                         [] \<Rightarrow> (False, s1)
                       | c # t \<Rightarrow> if c = 0x2E then (True, t) else (False, s1));
          fp = (if dot then takeWhile is_digit s2 else []);
          s3 = (if dot then dropWhile is_digit s2 else s2)
      in if ip = [] \<and> fp = [] then None
         else (case scan_exponent s3 of
                 Some (ex, []) \<Rightarrow> Some (decimal_value ip fp ex)
               | _ \<Rightarrow> None))"

definition signed_decimal :: "bool \<Rightarrow> jsstring \<Rightarrow> jsnum" where
  "signed_decimal neg s =
     (if s = js ''Infinity'' then (if neg then NegInf else PosInf)
      else (case unsigned_decimal s of
              None \<Rightarrow> NaN
            | Some r \<Rightarrow> fl (if neg then - r else r)))"

definition string_to_number :: "jsstring \<Rightarrow> jsnum" where
  "string_to_number s =
     (case trim s of
        [] \<Rightarrow> Fin 0
      | c # t \<Rightarrow>
          if c = 0x2D then signed_decimal True t
          else if c = 0x2B then signed_decimal False t
          else
            (case (if c = 0x30 then (case t of [] \<Rightarrow> None | x # ds \<Rightarrow> map_option (\<lambda>b. (b, ds)) (radix_of x))
                   else None) of
               Some (b, ds) \<Rightarrow> (case radix_value b ds of None \<Rightarrow> NaN | Some n \<Rightarrow> fl (of_int n))
             | None \<Rightarrow> signed_decimal False (c # t)))"

text \<open>
  ToPrimitive on the objects and arrays of \<^verbatim>\<open>JSON.parse\<close>. No property of such a value is
  callable, so an object with an own property \<^verbatim>\<open>toString\<close> has no usable conversion
  method (the inherited \<^verbatim>\<open>valueOf\<close> returns the object itself) and the conversion throws
  a TypeError; every other object converts to \<^verbatim>\<open>[object Object]\<close>. An array converts to
  the \<^verbatim>\<open>join\<close> of its elements, \<^verbatim>\<open>null\<close> giving the empty text, and throws when the
  conversion of an element does. (The limit of the engine's stack, which makes the
  conversion of an array nested thousands deep throw a RangeError, is not modelled.)
\<close>

fun to_string_throws :: "json \<Rightarrow> bool" where
  "to_string_throws (JObj kvs) = (js ''toString'' \<in> fst ` set kvs)"
| "to_string_throws (JArr vs) = (\<exists>v \<in> set vs. to_string_throws v)"
| "to_string_throws _ = False"

text \<open>
  The Number of the text that an array converts to. Two elements or more are joined by
  commas, which no numeric literal contains. The text of a Number \<open>x\<close> is a literal that
  converts back to \<open>x\<close> (ECMA-262, 6.1.6.1.20); its digits are not modelled.
\<close>

fun array_to_number :: "json list \<Rightarrow> jsnum" where
  "array_to_number [] = Fin 0"
| "array_to_number [JNull] = Fin 0"
| "array_to_number [JBool b] = NaN"
| "array_to_number [JNum x] = x"
| "array_to_number [JStr s] = string_to_number s"
| "array_to_number [JArr vs] = array_to_number vs"
| "array_to_number [JObj kvs] = NaN"
| "array_to_number (v # w # ws) = NaN"

text \<open>ToNumber, as the operator \<^verbatim>\<open>*\<close> applies it to its left operand.\<close>

definition to_number :: "json \<Rightarrow> js_error + jsnum" where
  "to_number v =
     (case v of
        JNull \<Rightarrow> Inr (Fin 0)
      | JBool b \<Rightarrow> Inr (Fin (if b then 1 else 0))
      | JNum x \<Rightarrow> Inr x
      | JStr s \<Rightarrow> Inr (string_to_number s)
      | JArr vs \<Rightarrow> if to_string_throws v then Inl TypeError else Inr (array_to_number vs)
      | JObj kvs \<Rightarrow> if to_string_throws v then Inl TypeError else Inr NaN)"

text \<open>ToBoolean of the result of a property access; \<open>None\<close> is \<^verbatim>\<open>undefined\<close>.\<close>

definition to_boolean :: "json option \<Rightarrow> bool" where
  "to_boolean v =
     (case v of
        None \<Rightarrow> False
      | Some JNull \<Rightarrow> False
      | Some (JBool b) \<Rightarrow> b
      | Some (JNum x) \<Rightarrow> x \<noteq> Fin 0 \<and> x \<noteq> NaN
      | Some (JStr s) \<Rightarrow> s \<noteq> []
      | Some (JArr vs) \<Rightarrow> True
      | Some (JObj kvs) \<Rightarrow> True)"

text \<open>
  The property access \<^verbatim>\<open>v.name\<close> for a name that no built-in prototype defines and that
  is neither \<^verbatim>\<open>length\<close> nor an index, as \<^verbatim>\<open>exp\<close> and \<^verbatim>\<open>iat\<close>: the own property of an
  object, \<^verbatim>\<open>undefined\<close> on every other value, and a TypeError on \<^verbatim>\<open>null\<close>.
\<close>

definition get_property :: "json \<Rightarrow> jsstring \<Rightarrow> js_error + json option" where
  "get_property v name =
     (case v of
        JNull \<Rightarrow> Inl TypeError
      | JObj kvs \<Rightarrow> Inr (map_of kvs name)
      | _ \<Rightarrow> Inr None)"

section \<open>Dates\<close>

text \<open>
  A Date holds a time value: a whole number of milliseconds since the epoch, or \<open>NaN\<close>
  (an invalid date). \<^verbatim>\<open>new Date(x)\<close> for a Number \<open>x\<close> applies TimeClip: \<open>NaN\<close> unless \<open>x\<close>
  is finite and at most \<open>8.64e15\<close> in magnitude, and else \<open>x\<close> truncated towards zero.
  \<^verbatim>\<open>a < b\<close> on dates compares the time values as Numbers, and is false when one is \<open>NaN\<close>.
\<close>

datatype js_date = InvalidDate | DateMs int

definition truncate_toward_zero :: "rat \<Rightarrow> int" where
  "truncate_toward_zero r = (if 0 \<le> r then \<lfloor>r\<rfloor> else - \<lfloor>- r\<rfloor>)"

definition new_Date :: "jsnum \<Rightarrow> js_date" where
  "new_Date x =
     (case x of
        Fin r \<Rightarrow> if \<bar>r\<bar> \<le> 8640000000000000 then DateMs (truncate_toward_zero r) else InvalidDate
      | _ \<Rightarrow> InvalidDate)"

definition date_less :: "js_date \<Rightarrow> js_date \<Rightarrow> bool" where
  "date_less a b =
     (case (a, b) of
        (DateMs x, DateMs y) \<Rightarrow> x < y
      | _ \<Rightarrow> False)"

section \<open>decodeJWT\<close>

record DecodedJWT =
  header :: json
  payload :: json
  signature :: jsstring
  isExpired :: bool
  expiresAt :: "js_date option"
  issuedAt :: "js_date option"

text \<open>
  The statements of the \<^verbatim>\<open>try\<close> block, for the three parts and the clock reading \<open>now\<close>
  (the time value of \<^verbatim>\<open>new Date()\<close>, in milliseconds). \<open>Inl\<close> is a thrown exception.
  \<open>None\<close> in \<open>expiresAt\<close> and \<open>issuedAt\<close> is \<^verbatim>\<open>null\<close>.
\<close>

definition derive_date :: "json option \<Rightarrow> js_error + js_date option" where
  "derive_date claim =
     (if to_boolean claim then
        (case to_number (the claim) of
           Inl e \<Rightarrow> Inl e
         | Inr n \<Rightarrow> Inr (Some (new_Date (times_1000 n))))
      else Inr None)"

definition try_block :: "int \<Rightarrow> jsstring \<Rightarrow> jsstring \<Rightarrow> jsstring \<Rightarrow> js_error + DecodedJWT" where
  "try_block now part0 part1 part2 =
     (case base64UrlDecode part0 of Inl e \<Rightarrow> Inl e | Inr header_text \<Rightarrow>
      case JSON_parse header_text of Inl e \<Rightarrow> Inl e | Inr hdr \<Rightarrow>
      case base64UrlDecode part1 of Inl e \<Rightarrow> Inl e | Inr payload_text \<Rightarrow>
      case JSON_parse payload_text of Inl e \<Rightarrow> Inl e | Inr pld \<Rightarrow>
      case get_property pld (js ''exp'') of Inl e \<Rightarrow> Inl e | Inr exp_claim \<Rightarrow>
      case derive_date exp_claim of Inl e \<Rightarrow> Inl e | Inr expires \<Rightarrow>
      case get_property pld (js ''iat'') of Inl e \<Rightarrow> Inl e | Inr iat_claim \<Rightarrow>
      case derive_date iat_claim of Inl e \<Rightarrow> Inl e | Inr issued \<Rightarrow>
        Inr \<lparr> header = hdr, payload = pld, signature = part2,
              isExpired = (case expires of
                             None \<Rightarrow> False
                           | Some d \<Rightarrow> date_less d (DateMs now)),
              expiresAt = expires, issuedAt = issued \<rparr>)"

text \<open>
  \<^verbatim>\<open>decodeJWT(token)\<close>. The result \<open>Inr None\<close> is the return value \<^verbatim>\<open>null\<close>, \<open>Inr (Some d)\<close> a
  returned object, and \<open>Inl e\<close> an exception that leaves the function. The \<^verbatim>\<open>catch\<close> clause
  turns every exception of the \<^verbatim>\<open>try\<close> block into \<^verbatim>\<open>null\<close>.
\<close>

definition decodeJWT :: "int \<Rightarrow> jsstring \<Rightarrow> js_error + DecodedJWT option" where
  "decodeJWT now token =
     (let parts = split 0x2E (trim token)
      in if length parts \<noteq> 3 then Inr None
         else (case try_block now (parts ! 0) (parts ! 1) (parts ! 2) of
                 Inl e \<Rightarrow> Inr None
               | Inr d \<Rightarrow> Inr (Some d)))"

section \<open>ClaimRow\<close>

text \<open>
  The text that \<^verbatim>\<open>ClaimRow\<close> displays for a claim. \<^verbatim>\<open>Date.prototype.toLocaleString\<close> and
  \<^verbatim>\<open>JSON.stringify\<close> depend on the host's locale and on the digits of Numbers; they are
  parameters. \<^verbatim>\<open>typeof value === "number"\<close> holds of the values \<open>JNum x\<close>.
\<close>

definition displayValue ::
  "(js_date \<Rightarrow> jsstring) \<Rightarrow> (json \<Rightarrow> jsstring) \<Rightarrow> jsstring \<Rightarrow> json \<Rightarrow> jsstring" where
  "displayValue toLocaleString JSON_stringify name v =
     (let isTimestamp =
            ((case v of JNum x \<Rightarrow> True | _ \<Rightarrow> False)
             \<and> (name = js ''exp'' \<or> name = js ''iat'' \<or> name = js ''nbf''))
      in if isTimestamp
         then toLocaleString (new_Date (times_1000 (case v of JNum x \<Rightarrow> x | _ \<Rightarrow> NaN)))
         else JSON_stringify v)"

section \<open>Notions used by the properties\<close>

text \<open>An object has an own property of the given name; no other JSON value has keys.\<close>

definition has_own_property :: "json \<Rightarrow> jsstring \<Rightarrow> bool" where
  "has_own_property v name = (case v of JObj kvs \<Rightarrow> name \<in> fst ` set kvs | _ \<Rightarrow> False)"

text \<open>
  The steps of base64url decoding as the specification words them: the URL-safe alphabet
  is translated to the standard one, and the text is padded on the right with \<^verbatim>\<open>=\<close> up to
  the next multiple of 4.
\<close>

definition url_to_standard :: "jsstring \<Rightarrow> jsstring" where
  "url_to_standard s = map (\<lambda>c. if c = 0x2D then 0x2B else if c = 0x5F then 0x2F else c) s"

definition pad_to_multiple_of_4 :: "jsstring \<Rightarrow> jsstring" where
  "pad_to_multiple_of_4 s = s @ replicate ((4 - length s mod 4) mod 4) 0x3D"

text \<open>
  Valid base64 as the specification words it, with no character outside the base64
  alphabet and no invalid padding: the length is a multiple of 4, and the text consists
  of characters of the alphabet, followed by no, one or two padding characters \<^verbatim>\<open>=\<close>.
\<close>

definition in_base64_alphabet :: "cu \<Rightarrow> bool" where
  "in_base64_alphabet c \<longleftrightarrow>
     (0x41 \<le> c \<and> c \<le> 0x5A) \<or> (0x61 \<le> c \<and> c \<le> 0x7A) \<or> (0x30 \<le> c \<and> c \<le> 0x39)
     \<or> c = 0x2B \<or> c = 0x2F"

definition valid_base64 :: "jsstring \<Rightarrow> bool" where
  "valid_base64 s \<longleftrightarrow>
     length s mod 4 = 0
     \<and> (list_all in_base64_alphabet s
        \<or> (s \<noteq> [] \<and> last s = 0x3D \<and> list_all in_base64_alphabet (butlast s))
        \<or> (2 \<le> length s \<and> last s = 0x3D \<and> last (butlast s) = 0x3D
           \<and> list_all in_base64_alphabet (butlast (butlast s))))"

text \<open>
  The texts that a forgiving decoder accepts: ASCII whitespace anywhere is ignored; when
  the rest has a length that is a multiple of 4, one or two padding characters at its
  end are dropped; what remains has a length that is not 1 modulo 4 and consists of
  characters of the alphabet.
\<close>

definition without_padding :: "jsstring \<Rightarrow> jsstring" where
  "without_padding t =
     (if length t mod 4 = 0 \<and> t \<noteq> [] \<and> last t = 0x3D then
        (if butlast t \<noteq> [] \<and> last (butlast t) = 0x3D then butlast (butlast t)
         else butlast t)
      else t)"

definition forgiving_base64 :: "jsstring \<Rightarrow> bool" where
  "forgiving_base64 s \<longleftrightarrow>
     (let body = without_padding (filter (\<lambda>c. \<not> is_ascii_whitespace c) s)
      in length body mod 4 \<noteq> 1 \<and> list_all in_base64_alphabet body)"

text \<open>
  The standard-alphabet counterpart of a code unit of the URL-safe alphabet, and the
  index of a code unit in the alphabet.
\<close>

definition std_char :: "cu \<Rightarrow> cu" where
  "std_char c = (if c = 0x2D then 0x2B else if c = 0x5F then 0x2F else c)"

abbreviation idx :: "cu \<Rightarrow> int" where
  "idx c \<equiv> the (b64_index (std_char c))"


text \<open>
  Modelled from the spec: the encoding side of the round trip ("base64url-encoding them
  with a signature and then decoding") is not part of the repository, which only decodes.
  \<open>b64url_encode\<close> is base64url without padding (RFC 4648, section 5) of a list of bytes,
  \<open>utf8_encode\<close> the UTF-8 encoding of a JavaScript string (an unpaired surrogate is
  encoded as U+FFFD), and \<open>encode_token\<close> joins the encoded JSON texts of header and
  payload and the signature with dots. A JSON text of a value is any text that
  \<open>JSON_parse\<close> maps to the value, as the text that \<^verbatim>\<open>JSON.stringify\<close> produces.
\<close>

definition b64url_char :: "int \<Rightarrow> cu" where
  "b64url_char i =
     (if i < 26 then of_int (0x41 + i)
      else if i < 52 then of_int (0x61 + (i - 26))
      else if i < 62 then of_int (0x30 + (i - 52))
      else if i = 62 then 0x2D
      else 0x5F)"

fun b64url_encode :: "int list \<Rightarrow> jsstring" where
  "b64url_encode (x # y # z # rest) =
     (let n = (x * 256 + y) * 256 + z
      in b64url_char (n div 262144) # b64url_char ((n div 4096) mod 64)
         # b64url_char ((n div 64) mod 64) # b64url_char (n mod 64) # b64url_encode rest)"
| "b64url_encode [x, y] =
     (let n = (x * 256 + y) * 4
      in [b64url_char (n div 4096), b64url_char ((n div 64) mod 64), b64url_char (n mod 64)])"
| "b64url_encode [x] =
     (let n = x * 16
      in [b64url_char (n div 64), b64url_char (n mod 64)])"
| "b64url_encode [] = []"

fun utf8_encode :: "jsstring \<Rightarrow> int list" where
  "utf8_encode [] = []"
| "utf8_encode (c # cs) =
     (if c < 0x80 then [uint c] @ utf8_encode cs
      else if c < 0x800 then
        [0xC0 + uint c div 64, 0x80 + uint c mod 64] @ utf8_encode cs
      else if 0xD800 \<le> c \<and> c < 0xDC00 then
        (case cs of
           [] \<Rightarrow> [0xEF, 0xBF, 0xBD]
         | d # ds \<Rightarrow>
             if 0xDC00 \<le> d \<and> d < 0xE000 then
               (let cp = 0x10000 + (uint c - 0xD800) * 1024 + (uint d - 0xDC00)
                in [0xF0 + cp div 262144, 0x80 + (cp div 4096) mod 64,
                    0x80 + (cp div 64) mod 64, 0x80 + cp mod 64] @ utf8_encode ds)
             else [0xEF, 0xBF, 0xBD] @ utf8_encode cs)
      else if 0xDC00 \<le> c \<and> c < 0xE000 then [0xEF, 0xBF, 0xBD] @ utf8_encode cs
      else [0xE0 + uint c div 4096, 0x80 + (uint c div 64) mod 64, 0x80 + uint c mod 64]
           @ utf8_encode cs)"

definition encode_token :: "jsstring \<Rightarrow> jsstring \<Rightarrow> jsstring \<Rightarrow> jsstring" where
  "encode_token header_text payload_text sig =
     b64url_encode (utf8_encode header_text) @ [0x2E]
     @ b64url_encode (utf8_encode payload_text) @ [0x2E] @ sig"


text \<open>Every code unit is an ASCII character.\<close>

definition is_ascii :: "jsstring \<Rightarrow> bool" where
  "is_ascii s \<longleftrightarrow> (\<forall>c \<in> set s. c < 0x80)"


text \<open>
  The access \<^verbatim>\<open>p.name\<close> and the conversion of its value to a Number do not throw: \<open>p\<close> is
  not \<^verbatim>\<open>null\<close>, and the value of the property, when there is one, is neither an object
  with an own property \<^verbatim>\<open>toString\<close> nor an array (the conversion of an array descends into
  its elements, as deep as the engine's stack allows, which is not modelled).
\<close>

definition claim_converts :: "json \<Rightarrow> jsstring \<Rightarrow> bool" where
  "claim_converts p name =
     (case get_property p name of
        Inl e \<Rightarrow> False
      | Inr None \<Rightarrow> True
      | Inr (Some v) \<Rightarrow> (case v of JArr vs \<Rightarrow> False | _ \<Rightarrow> \<not> to_string_throws v))"

section \<open>Properties\<close>

subsection \<open>The structure of a successful decode\<close>

lemma decodeJWT_SomeD:
  assumes "decodeJWT now token = Inr (Some d)"
  shows "\<exists>p0 p1 p2. split 0x2E (trim token) = [p0, p1, p2] \<and> try_block now p0 p1 p2 = Inr d"
proof -
  let ?parts = "split 0x2E (trim token)"
  from assms have len: "length ?parts = 3"
    by (auto simp: decodeJWT_def Let_def split: if_splits)
  then obtain p0 p1 p2 where parts: "?parts = [p0, p1, p2]"
    by (auto simp: length_Suc_conv numeral_3_eq_3)
  with assms have "try_block now p0 p1 p2 = Inr d"
    by (auto simp: decodeJWT_def Let_def split: if_splits sum.splits)
  with parts show ?thesis by blast
qed

lemma try_block_InrD:
  assumes "try_block now a b c = Inr d"
  shows "\<exists>ht pt ex ia.
           base64UrlDecode a = Inr ht \<and> JSON_parse ht = Inr (header d)
         \<and> base64UrlDecode b = Inr pt \<and> JSON_parse pt = Inr (payload d)
         \<and> get_property (payload d) (js ''exp'') = Inr ex
         \<and> derive_date ex = Inr (expiresAt d)
         \<and> get_property (payload d) (js ''iat'') = Inr ia
         \<and> derive_date ia = Inr (issuedAt d)
         \<and> signature d = c
         \<and> isExpired d = (case expiresAt d of None \<Rightarrow> False | Some e \<Rightarrow> date_less e (DateMs now))"
  using assms unfolding try_block_def
  by (auto split: sum.splits)

lemma decodeJWT_three_parts:
  "split 0x2E (trim token) = [p0, p1, p2] \<Longrightarrow>
   decodeJWT now token =
     (case try_block now p0 p1 p2 of Inl e \<Rightarrow> Inr None | Inr d \<Rightarrow> Inr (Some d))"
  by (simp add: decodeJWT_def)

lemma get_property_absent:
  "\<not> has_own_property v name \<Longrightarrow> get_property v name = Inr ex \<Longrightarrow> ex = None"
  by (auto simp: has_own_property_def get_property_def map_of_eq_None_iff split: json.splits)

lemma derive_date_None [simp]: "derive_date None = Inr None"
  by (simp add: derive_date_def to_boolean_def)

subsection \<open>The padding loop\<close>

lemma pad_loop_eq: "pad_loop s = pad_to_multiple_of_4 s"
proof (induction s rule: pad_loop.induct)
  case (1 base64)
  show ?case
  proof (cases "length base64 mod 4 = 0")
    case True
    then show ?thesis by (subst pad_loop.simps) (simp add: pad_to_multiple_of_4_def)
  next
    case False
    have lt: "length base64 mod 4 < 4" by simp
    from False have "pad_loop base64 = pad_loop (base64 @ [0x3D])"
      by (subst pad_loop.simps) simp
    also from False have "\<dots> = pad_to_multiple_of_4 (base64 @ [0x3D])" by (rule 1)
    also have "\<dots> = base64 @ replicate (Suc ((4 - Suc (length base64) mod 4) mod 4)) 0x3D"
      by (simp add: pad_to_multiple_of_4_def)
    also have "Suc ((4 - Suc (length base64) mod 4) mod 4) = (4 - length base64 mod 4) mod 4"
      using False lt by (simp add: mod_Suc) linarith
    finally show ?thesis by (simp add: pad_to_multiple_of_4_def)
  qed
qed

lemma replace_replace: "replace_all 0x5F 0x2F (replace_all 0x2D 0x2B s) = url_to_standard s"
  by (simp add: replace_all_def url_to_standard_def)

lemma length_pad: "length (pad_to_multiple_of_4 s) mod 4 = 0"
proof -
  define r where "r = length s mod 4"
  have "r < 4" by (simp add: r_def)
  then have cases: "r = 0 \<or> r = 1 \<or> r = 2 \<or> r = 3" by linarith
  have "(length s + (4 - r) mod 4) mod 4 = (r + (4 - r) mod 4) mod 4"
    unfolding r_def by (simp add: mod_add_left_eq)
  also from cases have "\<dots> = 0" by auto
  finally show ?thesis by (simp add: pad_to_multiple_of_4_def r_def)
qed


subsection \<open>Rounding and dates on whole numbers\<close>


lemma pow2_nonpos: "k \<le> 0 \<Longrightarrow> pow2 k = 1 / 2 ^ nat (- k)"
  by (cases "k = 0") (simp_all add: pow2_def)

lemma round_half_even_of_int [simp]: "round_half_even (of_int m) = m"
  by (simp add: round_half_even_def)

lemma floor_log2_of_int:
  assumes "0 < M"
  shows "floor_log2 (of_int M) = bitlen M - 1"
proof -
  from assms have b: "1 \<le> bitlen M"
    by (simp add: bitlen_ge_iff_power)
  have one: "bitlen 1 = 1"
    by (simp add: bitlen_alt_def)
  from bitlen_bounds [OF assms] have "(2::int) ^ nat (bitlen M - 1) \<le> M" by simp
  then have "(of_int ((2::int) ^ nat (bitlen M - 1)) :: rat) \<le> of_int M"
    by (simp only: of_int_le_iff)
  then have "pow2 (bitlen M - 1) \<le> of_int M"
    using b by (simp add: pow2_def)
  then show ?thesis
    by (simp add: floor_log2_def one)
qed

lemma fl_of_int:
  assumes "\<bar>m\<bar> < 2 ^ 53"
  shows "fl (of_int m) = Fin (of_int m)"
proof (cases "m = 0")
  case True
  then show ?thesis by (simp add: fl_def)
next
  case False
  define M where "M = \<bar>m\<bar>"
  define e where "e = bitlen M - 1"
  define j where "j = nat (52 - e)"
  from False have M: "0 < M" by (simp add: M_def)
  from M have "1 \<le> bitlen M" by (simp add: bitlen_ge_iff_power)
  then have e0: "0 \<le> e" by (simp add: e_def)
  from assms have "bitlen M \<le> 53" by (simp add: M_def bitlen_le_iff_power)
  then have e52: "e \<le> 52" by (simp add: e_def)
  have a: "\<bar>of_int m :: rat\<bar> = of_int M" by (simp add: M_def)
  have fl2: "floor_log2 (of_int M) = e"
    using M by (simp add: floor_log2_of_int e_def)
  have mx: "max e (- 1022) = e" using e0 by simp
  have u: "pow2 (e - 52) = 1 / 2 ^ j"
    using e52 by (simp add: pow2_nonpos j_def)
  have q: "(of_int M :: rat) / (1 / 2 ^ j) = of_int (M * 2 ^ j)" by simp
  have v: "(of_int (M * 2 ^ j) :: rat) * (1 / 2 ^ j) = of_int M" by simp
  from e52 have small: "\<not> (1024 \<le> e \<or> (e = 1023 \<and> M * 2 ^ j = 2 ^ 53))" by simp
  have "fl (of_int m) = Fin (if (of_int m :: rat) < 0 then - of_int M else of_int M)"
    using False small unfolding fl_def Let_def a fl2 mx u q round_half_even_of_int v
    by simp
  also have "(if (of_int m :: rat) < 0 then - of_int M else of_int M) = (of_int m :: rat)"
    by (simp add: M_def)
  finally show ?thesis .
qed

lemma truncate_of_int [simp]: "truncate_toward_zero (of_int k) = k"
  by (simp add: truncate_toward_zero_def)

lemma new_Date_of_int:
  assumes "\<bar>k\<bar> \<le> 8640000000000000"
  shows "new_Date (Fin (of_int k)) = DateMs k"
proof -
  from assms have "(of_int \<bar>k\<bar> :: rat) \<le> of_int 8640000000000000"
    by (rule of_int_le_iff [THEN iffD2])
  then have "\<bar>of_int k :: rat\<bar> \<le> 8640000000000000"
    by (simp only: of_int_abs of_int_numeral)
  then show ?thesis
    by (simp add: new_Date_def)
qed

lemma times_1000_of_int:
  assumes "\<bar>n\<bar> \<le> 8640000000000"
  shows "times_1000 (Fin (of_int n)) = Fin (of_int (1000 * n))"
proof -
  define k where "k = 1000 * n"
  from assms have "\<bar>k\<bar> < 2 ^ 53" by (simp add: k_def)
  then have "fl (of_int k) = Fin (of_int k)" by (rule fl_of_int)
  moreover have "(of_int n :: rat) * 1000 = of_int k" by (simp add: k_def)
  ultimately show ?thesis
    unfolding k_def [symmetric] by (simp add: times_1000_def)
qed

lemma derive_date_integer:
  assumes "\<bar>n\<bar> \<le> 8640000000000"
  shows "derive_date (Some (JNum (Fin (of_int n)))) =
           Inr (if n = 0 then None else Some (DateMs (1000 * n)))"
proof -
  from assms have "\<bar>1000 * n\<bar> \<le> 8640000000000000" by simp
  then have "new_Date (Fin (of_int (1000 * n))) = DateMs (1000 * n)"
    by (rule new_Date_of_int)
  then have "new_Date (times_1000 (Fin (of_int n))) = DateMs (1000 * n)"
    by (simp only: times_1000_of_int [OF assms])
  then show ?thesis
    by (simp add: derive_date_def to_boolean_def to_number_def)
qed

subsection \<open>The parser consumes its input\<close>

lemma parse_string_body_shorter:
  "parse_string_body s = Some (x, r) \<Longrightarrow> length r < length s"
proof (induction s arbitrary: x rule: parse_string_body.induct)
  case 1
  then show ?case by simp
next
  case (2 c cs)
  then show ?case
    by (fastforce split: if_splits list.splits option.splits)
qed

lemma strip_prefix_shorter: "strip_prefix p s = Some r \<Longrightarrow> length r \<le> length s"
  by (induction p s rule: strip_prefix.induct) (auto split: if_splits)

lemma scan_exponent_shorter: "scan_exponent s = Some (e, r) \<Longrightarrow> length r \<le> length s"
  unfolding scan_exponent_def
  by (auto simp: Let_def split: list.splits if_splits prod.splits
           intro: le_trans [OF length_dropWhile_le] le_SucI)


lemma scan_minus_shorter: "scan_minus s = (neg, r) \<Longrightarrow> length r \<le> length s"
  by (auto simp: scan_minus_def split: list.splits if_splits)

lemma scan_int_shorter:
  assumes "scan_int s = (ip, r)" and "ip \<noteq> []"
  shows "length r < length s"
proof -
  have "length (takeWhile is_digit s) + length (dropWhile is_digit s) = length s"
    by (simp flip: length_append)
  with assms show ?thesis
    by (auto simp: scan_int_def split: list.splits if_splits)
qed

lemma scan_fraction_shorter: "scan_fraction s = Some (fp, r) \<Longrightarrow> length r \<le> length s"
  by (auto simp: scan_fraction_def split: list.splits if_splits
           intro: le_trans [OF length_dropWhile_le] le_SucI)

lemma parse_number_shorter:
  assumes "parse_number s = Some (v, r)"
  shows "length r < length s"
proof -
  obtain neg s1 where s1: "scan_minus s = (neg, s1)" by fastforce
  obtain ip s2 where s2: "scan_int s1 = (ip, s2)" by fastforce
  from assms have ip: "ip \<noteq> []"
    by (simp add: parse_number_def s1 s2 split: if_splits)
  with assms obtain fp s3 ex where s3: "scan_fraction s2 = Some (fp, s3)"
    and s4: "scan_exponent s3 = Some (ex, r)"
    by (auto simp: parse_number_def s1 s2 split: option.splits)
  from scan_minus_shorter [OF s1] scan_int_shorter [OF s2 ip] scan_fraction_shorter [OF s3]
    scan_exponent_shorter [OF s4]
  show ?thesis by linarith
qed

lemma skip_ws_shorter: "skip_ws s = c # cs \<Longrightarrow> length cs < length s"
  using length_dropWhile_le [of is_json_whitespace s] by (simp add: skip_ws_def)

lemma parse_shorter:
  "parse_value s = Some (v, r) \<Longrightarrow> length r < length s"
  "parse_elements s1 acc1 = Some (v1, r1) \<Longrightarrow> length r1 < length s1"
  "parse_members s2 acc2 = Some (v2, r2) \<Longrightarrow> length r2 < length s2"
proof (induction s and s1 acc1 and s2 acc2 arbitrary: v r and v1 r1 and v2 r2
       rule: parse_value_parse_elements_parse_members.induct)
  case (1 s)
  from 1(3) obtain c cs where sk: "skip_ws s = c # cs"
    by (subst (asm) parse_value.simps) (auto split: list.splits)
  note l = skip_ws_shorter [OF sk]
  consider (obj) "c = 0x7B" | (arr) "c \<noteq> 0x7B" "c = 0x5B" | (other) "c \<noteq> 0x7B" "c \<noteq> 0x5B"
    by blast
  then show ?case
  proof cases
    case obj
    with 1(3) sk obtain d r' where d: "skip_ws cs = d # r'"
      by (subst (asm) parse_value.simps) (auto split: list.splits)
    show ?thesis
    proof (cases "d = 0x7D")
      case True
      with 1(3) sk obj d have "r = r'"
        by (subst (asm) parse_value.simps) simp
      with skip_ws_shorter [OF d] l show ?thesis by simp
    next
      case False
      with 1(3) sk obj d have "parse_members cs [] = Some (v, r)"
        by (subst (asm) parse_value.simps) simp
      with 1(1) [OF sk obj d False] l show ?thesis by simp
    qed
  next
    case arr
    with 1(3) sk obtain d r' where d: "skip_ws cs = d # r'"
      by (subst (asm) parse_value.simps) (auto split: list.splits)
    show ?thesis
    proof (cases "d = 0x5D")
      case True
      with 1(3) sk arr d have "r = r'"
        by (subst (asm) parse_value.simps) simp
      with skip_ws_shorter [OF d] l show ?thesis by simp
    next
      case False
      with 1(3) sk arr d have "parse_elements cs [] = Some (v, r)"
        by (subst (asm) parse_value.simps) simp
      with 1(2) [OF sk arr d False] l show ?thesis by simp
    qed
  next
    case other
    with 1(3) sk have "length r \<le> length cs"
      by (subst (asm) parse_value.simps)
         (auto split: if_splits
               dest: parse_string_body_shorter strip_prefix_shorter parse_number_shorter)
    with l show ?thesis by simp
  qed
next
  case (2 s acc)
  from 2(3) obtain v' r' where pv: "parse_value s = Some (v', r')"
    by (subst (asm) parse_elements.simps) (auto split: option.splits)
  note l = 2(1) [OF pv]
  from 2(3) pv obtain c r'' where sk: "skip_ws r' = c # r''"
    by (subst (asm) parse_elements.simps) (auto split: list.splits)
  note l2 = skip_ws_shorter [OF sk]
  show ?case
  proof (cases "c = 0x2C")
    case True
    from l l2 have g: "length r'' < length s" by simp
    with 2(3) pv sk True have "parse_elements r'' (acc @ [v']) = Some (v1, r1)"
      by (subst (asm) parse_elements.simps) simp
    from 2(2) [OF pv refl sk True g this] g show ?thesis by simp
  next
    case False
    with 2(3) pv sk have "r1 = r''"
      by (subst (asm) parse_elements.simps) (simp split: if_splits)
    with l l2 show ?thesis by simp
  qed
next
  case (3 s acc)
  from 3(3) obtain q t1 where sk: "skip_ws s = q # t1"
    by (subst (asm) parse_members.simps) (auto split: list.splits)
  from 3(3) sk have q: "q = 0x22"
    by (subst (asm) parse_members.simps) (simp split: if_splits)
  from 3(3) sk q obtain k t2 where ps: "parse_string_body t1 = Some (k, t2)"
    by (subst (asm) parse_members.simps) (auto split: option.splits)
  from 3(3) sk q ps obtain c t3 where sk2: "skip_ws t2 = c # t3"
    by (subst (asm) parse_members.simps) (auto split: list.splits)
  from 3(3) sk q ps sk2 have c: "c = 0x3A \<and> length t3 < length s"
    by (subst (asm) parse_members.simps) (simp split: if_splits)
  from 3(3) sk q ps sk2 c obtain v' r' where pv: "parse_value t3 = Some (v', r')"
    by (subst (asm) parse_members.simps) (auto split: option.splits)
  note l = 3(1) [OF sk q ps refl sk2 c pv]
  from 3(3) sk q ps sk2 c pv obtain d r'' where sk3: "skip_ws r' = d # r''"
    by (subst (asm) parse_members.simps) (auto split: list.splits)
  note l3 = skip_ws_shorter [OF sk3]
  from c l l3 have g: "length r'' < length s" by simp
  show ?case
  proof (cases "d = 0x2C")
    case True
    with 3(3) sk q ps sk2 c pv sk3 g have "parse_members r'' (obj_put acc k v') = Some (v2, r2)"
      by (subst (asm) parse_members.simps) simp
    from 3(2) [OF sk q ps refl sk2 c pv refl sk3 True g this] g show ?thesis by simp
  next
    case False
    with 3(3) sk q ps sk2 c pv sk3 have "r2 = r''"
      by (subst (asm) parse_members.simps) (simp split: if_splits)
    with g show ?thesis by simp
  qed
qed


text \<open>
  The length tests in \<open>parse_elements\<close> and \<open>parse_members\<close> never fail: the two functions
  satisfy the equations of the grammar without them.
\<close>

lemma parse_elements_unfold:
  "parse_elements s acc =
     (case parse_value s of
        None \<Rightarrow> None
      | Some (v, r) \<Rightarrow>
          (case skip_ws r of
             [] \<Rightarrow> None
           | c # r' \<Rightarrow>
               if c = 0x2C then parse_elements r' (acc @ [v])
               else if c = 0x5D then Some (JArr (acc @ [v]), r')
               else None))"
proof (cases "parse_value s")
  case None
  then show ?thesis by (subst parse_elements.simps) simp
next
  case (Some a)
  obtain v r where a: "a = (v, r)" by (cases a)
  note l = parse_shorter(1) [OF Some [unfolded a]]
  show ?thesis
  proof (cases "skip_ws r")
    case Nil
    with Some a show ?thesis by (subst parse_elements.simps) simp
  next
    case (Cons c r')
    from skip_ws_shorter [OF Cons] l have "length r' < length s" by simp
    with Some a Cons show ?thesis by (subst parse_elements.simps) simp
  qed
qed

lemma parse_members_unfold:
  "parse_members s acc =
     (case skip_ws s of
        [] \<Rightarrow> None
      | q # s1 \<Rightarrow>
          if q = 0x22 then
            (case parse_string_body s1 of
               None \<Rightarrow> None
             | Some (k, s2) \<Rightarrow>
                 (case skip_ws s2 of
                    [] \<Rightarrow> None
                  | c # s3 \<Rightarrow>
                      if c = 0x3A then
                        (case parse_value s3 of
                           None \<Rightarrow> None
                         | Some (v, r) \<Rightarrow>
                             (case skip_ws r of
                                [] \<Rightarrow> None
                              | d # r' \<Rightarrow>
                                  if d = 0x2C then parse_members r' (obj_put acc k v)
                                  else if d = 0x7D then Some (JObj (obj_put acc k v), r')
                                  else None))
                      else None))
          else None)"
proof -
  have g1: "length s3 < length s"
    if "skip_ws s = q # s1" "parse_string_body s1 = Some (k, s2)" "skip_ws s2 = c # s3"
    for q s1 k s2 c s3
    using skip_ws_shorter [OF that(1)] parse_string_body_shorter [OF that(2)]
      skip_ws_shorter [OF that(3)]
    by simp
  have g2: "length r' < length s"
    if "skip_ws s = q # s1" "parse_string_body s1 = Some (k, s2)" "skip_ws s2 = c # s3"
      "parse_value s3 = Some (v, r)" "skip_ws r = d # r'"
    for q s1 k s2 c s3 v r d r'
    using g1 [OF that(1-3)] parse_shorter(1) [OF that(4)] skip_ws_shorter [OF that(5)]
    by simp
  show ?thesis
    by (subst parse_members.simps)
       (auto split: list.splits option.splits dest: g1 g2)
qed

subsection \<open>Decoding an encoded text\<close>

lemma uint_b64url_char:
  assumes "0 \<le> i" "i < 64"
  shows "uint (b64url_char i) =
     (if i < 26 then 0x41 + i else if i < 52 then 0x61 + (i - 26)
      else if i < 62 then 0x30 + (i - 52) else if i = 62 then 0x2D else 0x5F)"
proof -
  have u: "uint (of_int k :: cu) = k" if "0 \<le> k" "k < 65536" for k
    using that by (simp only: uint_word_of_int take_bit_eq_mod) simp
  have "uint (of_int (0x41 + i) :: cu) = 0x41 + i"
    "uint (of_int (0x61 + (i - 26)) :: cu) = 0x61 + (i - 26)" if "i < 52"
    using that assms by (intro u; simp)+
  moreover have "uint (of_int (0x30 + (i - 52)) :: cu) = 0x30 + (i - 52)" if "52 \<le> i"
    using that assms by (intro u; simp)
  ultimately show ?thesis
    unfolding b64url_char_def by (simp del: of_int_add of_int_diff)
qed

lemma alphabet1:
  assumes "0 \<le> i" "i < 64"
  shows "b64_index (std_char (b64url_char i)) = Some i"
  using assms
  by (simp add: b64_index_def std_char_def word_le_def word_uint_eq_iff uint_b64url_char) 

lemma alphabet2:
  assumes "0 \<le> i" "i < 64"
  shows "b64url_char i \<noteq> 0x2E" "std_char (b64url_char i) \<noteq> 0x3D"
    "0x2D \<le> b64url_char i" "b64url_char i \<le> 0x7A"
    "0x2B \<le> std_char (b64url_char i)" "std_char (b64url_char i) \<le> 0x7A"
  using assms
  by (simp_all add: std_char_def word_le_def word_uint_eq_iff uint_b64url_char) 


lemma sextets_24:
  fixes n :: int
  shows "((n div 262144 * 64 + (n div 4096) mod 64) * 64 + (n div 64) mod 64) * 64 + n mod 64 = n"
proof -
  have a: "n div 4096 = (n div 64) div 64" and b: "n div 262144 = ((n div 64) div 64) div 64"
    by (simp_all add: zdiv_zmult2_eq)
  show ?thesis
    unfolding a b by (simp add: algebra_simps)
qed

lemma sextets_18:
  fixes n :: int
  shows "(n div 4096 * 64 + (n div 64) mod 64) * 64 + n mod 64 = n"
proof -
  have a: "n div 4096 = (n div 64) div 64"
    by (simp add: zdiv_zmult2_eq)
  show ?thesis
    unfolding a by (simp add: algebra_simps)
qed

lemma divmod_step:
  fixes q r b :: int
  assumes "0 \<le> r" "r < b"
  shows "(q * b + r) div b = q" "(q * b + r) mod b = r"
  using assms by (simp_all add: div_pos_pos_trivial)

lemma three_bytes:
  fixes x y z :: int
  assumes "0 \<le> x" "x < 256" "0 \<le> y" "y < 256" "0 \<le> z" "z < 256"
    and n: "n = (x * 256 + y) * 256 + z"
  shows "n div 65536 = x" "(n div 256) mod 256 = y" "n mod 256 = z" "0 \<le> n" "n < 16777216"
proof -
  have d: "n div 256 = x * 256 + y"
    unfolding n using assms(5,6) by (rule divmod_step)
  show "n mod 256 = z"
    unfolding n using assms(5,6) by (rule divmod_step)
  show "(n div 256) mod 256 = y"
    unfolding d using assms(3,4) by (rule divmod_step)
  have "n div 65536 = (n div 256) div 256" by (simp add: zdiv_zmult2_eq)
  also have "\<dots> = x" unfolding d using assms(3,4) by (rule divmod_step)
  finally show "n div 65536 = x" .
  show "0 \<le> n" using assms by (simp add: n)
  show "n < 16777216" using assms(1-6) unfolding n by simp
qed

lemma sextet_ranges:
  fixes n :: int
  assumes "0 \<le> n"
  shows "0 \<le> n mod 64" "n mod 64 < 64" "0 \<le> (n div 64) mod 64" "(n div 64) mod 64 < 64"
    "0 \<le> (n div 4096) mod 64" "(n div 4096) mod 64 < 64" "0 \<le> n div 262144" "0 \<le> n div 4096"
    "0 \<le> n div 64"
  using assms by (simp_all add: pos_imp_zdiv_nonneg_iff)

lemma idx_char: "0 \<le> i \<Longrightarrow> i < 64 \<Longrightarrow> idx (b64url_char i) = i"
  by (simp add: alphabet1)

lemma decode_encode_bytes:
  assumes "\<forall>b \<in> set bs. 0 \<le> b \<and> b < 256"
  shows "b64_bytes (map idx (b64url_encode bs)) = bs"
  using assms
proof (induction bs rule: b64url_encode.induct)
  case (1 x y z rest)
  define n where "n = (x * 256 + y) * 256 + z"
  from 1(2) have b: "0 \<le> x" "x < 256" "0 \<le> y" "y < 256" "0 \<le> z" "z < 256"
    by simp_all
  note tb = three_bytes [OF b n_def]
  from tb(4,5) have top: "n div 262144 < 64" by simp
  note r = sextet_ranges [OF tb(4)]
  from 1(2) have IH: "b64_bytes (map idx (b64url_encode rest)) = rest"
    by (intro 1(1)) simp_all
  have "map idx (b64url_encode (x # y # z # rest)) =
          n div 262144 # (n div 4096) mod 64 # (n div 64) mod 64 # n mod 64
          # map idx (b64url_encode rest)"
    unfolding b64url_encode.simps Let_def n_def [symmetric]
    by (simp add: idx_char r top)
  then have "b64_bytes (map idx (b64url_encode (x # y # z # rest))) =
          n div 65536 # (n div 256) mod 256 # n mod 256 # rest"
    by (simp only: b64_bytes.simps Let_def sextets_24 IH)
  then show ?case by (simp only: tb)
next
  case (2 x y)
  define m where "m = x * 256 + y"
  define n where "n = m * 4"
  from 2 have b: "0 \<le> x" "x < 256" "0 \<le> y" "y < 256" by simp_all
  have m: "m div 256 = x" "m mod 256 = y"
    unfolding m_def using b(3,4) by (rule divmod_step)+
  from b have mr: "0 \<le> m" "m < 65536" by (simp_all add: m_def)
  then have n: "0 \<le> n" "n < 262144" "n div 4 = m" by (simp_all add: n_def)
  from n have top: "n div 4096 < 64" by simp
  note r = sextet_ranges [OF n(1)]
  have "map idx (b64url_encode [x, y]) = [n div 4096, (n div 64) mod 64, n mod 64]"
    unfolding b64url_encode.simps Let_def m_def [symmetric] n_def [symmetric]
    by (simp add: idx_char r top)
  then have "b64_bytes (map idx (b64url_encode [x, y])) = [m div 256, m mod 256]"
    by (simp only: b64_bytes.simps Let_def sextets_18 n)
  then show ?case by (simp only: m)
next
  case (3 x)
  define n where "n = x * 16"
  from 3 have b: "0 \<le> x" "x < 256" by simp_all
  then have n: "0 \<le> n" "n < 4096" "n div 16 = x" by (simp_all add: n_def)
  from n have top: "n div 64 < 64" by simp
  have e: "n div 64 * 64 + n mod 64 = n" by simp
  note r = sextet_ranges [OF n(1)]
  have "map idx (b64url_encode [x]) = [n div 64, n mod 64]"
    unfolding b64url_encode.simps Let_def n_def [symmetric]
    by (simp add: idx_char r top)
  then have "b64_bytes (map idx (b64url_encode [x])) = [n div 16]"
    by (simp only: b64_bytes.simps e)
  then show ?case by (simp only: n)
next
  case 4
  show ?case by simp
qed


lemma b64url_encode_chars:
  assumes "\<forall>b \<in> set bs. 0 \<le> b \<and> b < 256"
  shows "set (b64url_encode bs) \<subseteq> b64url_char ` {0..<64}"
  using assms
proof (induction bs rule: b64url_encode.induct)
  case (1 x y z rest)
  define n where "n = (x * 256 + y) * 256 + z"
  from 1(2) have b: "0 \<le> x" "x < 256" "0 \<le> y" "y < 256" "0 \<le> z" "z < 256"
    by simp_all
  note tb = three_bytes [OF b n_def]
  from tb(4,5) have top: "n div 262144 < 64" by simp
  note r = sextet_ranges [OF tb(4)]
  from 1(2) have IH: "set (b64url_encode rest) \<subseteq> b64url_char ` {0..<64}"
    by (intro 1(1)) simp_all
  show ?case
    unfolding b64url_encode.simps Let_def n_def [symmetric]
    using IH r top by (auto intro!: imageI)
next
  case (2 x y)
  define n where "n = (x * 256 + y) * 4"
  from 2 have n: "0 \<le> n" "n < 262144" by (simp_all add: n_def)
  from n have top: "n div 4096 < 64" by simp
  note r = sextet_ranges [OF n(1)]
  show ?case
    unfolding b64url_encode.simps Let_def n_def [symmetric]
    using r top by (auto intro!: imageI)
next
  case (3 x)
  define n where "n = x * 16"
  from 3 have n: "0 \<le> n" "n < 4096" by (simp_all add: n_def)
  from n have top: "n div 64 < 64" by simp
  note r = sextet_ranges [OF n(1)]
  show ?case
    unfolding b64url_encode.simps Let_def n_def [symmetric]
    using r top by (auto intro!: imageI)
next
  case 4
  show ?case by simp
qed

lemma length_b64url_encode: "length (b64url_encode bs) mod 4 \<noteq> 1"
  by (induction bs rule: b64url_encode.induct) (simp_all add: Let_def)

lemma strip_two:
  "length (u @ [0x3D, 0x3D]) mod 4 = 0 \<Longrightarrow> strip_padding (u @ [0x3D, 0x3D]) = u"
  by (simp add: strip_padding_def)

lemma strip_one:
  "length (u @ [b, 0x3D]) mod 4 = 0 \<Longrightarrow> b \<noteq> 0x3D \<Longrightarrow> strip_padding (u @ [b, 0x3D]) = u @ [b]"
  by (simp add: strip_padding_def)

lemma strip_padding_pad:
  assumes len: "length s mod 4 \<noteq> 1" and noeq: "\<forall>c \<in> set s. c \<noteq> 0x3D"
  shows "strip_padding (pad_to_multiple_of_4 s) = s"
proof -
  define r where "r = length s mod 4"
  have "r < 4" by (simp add: r_def)
  with len have cases: "r = 0 \<or> r = 2 \<or> r = 3" unfolding r_def by linarith
  have l0: "length (pad_to_multiple_of_4 s) mod 4 = 0" by (rule length_pad)
  from cases show ?thesis
  proof (elim disjE)
    assume r: "r = 0"
    then have p: "pad_to_multiple_of_4 s = s"
      by (simp add: pad_to_multiple_of_4_def r_def)
    have "strip_padding s = s"
    proof (cases "rev s")
      case Nil
      then show ?thesis by (simp add: strip_padding_def)
    next
      case (Cons a t)
      then have "a \<in> set s" by (metis list.set_intros(1) set_rev)
      with noeq have "a \<noteq> 0x3D" by blast
      then show ?thesis
        unfolding strip_padding_def Cons by (simp split: list.splits)
    qed
    then show ?thesis by (simp only: p)
  next
    assume r: "r = 2"
    then have p: "pad_to_multiple_of_4 s = s @ [0x3D, 0x3D]"
      by (simp add: pad_to_multiple_of_4_def r_def numeral_2_eq_2)
    from l0 show ?thesis
      unfolding p by (rule strip_two)
  next
    assume r: "r = 3"
    then have p: "pad_to_multiple_of_4 s = s @ [0x3D]"
      by (simp add: pad_to_multiple_of_4_def r_def)
    from r have "s \<noteq> []" by (auto simp: r_def)
    then obtain u b where s: "s = u @ [b]" by (metis rev_exhaust)
    with noeq have b: "b \<noteq> 0x3D" by simp
    from l0 [unfolded p] have "length (u @ [b, 0x3D]) mod 4 = 0" by (simp add: s)
    then have "strip_padding (u @ [b, 0x3D]) = u @ [b]" using b by (rule strip_one)
    then show ?thesis unfolding p by (simp add: s)
  qed
qed

lemma atob_pad:
  assumes len: "length s mod 4 \<noteq> 1"
    and ok: "\<forall>c \<in> set s. b64_index c \<noteq> None \<and> c \<noteq> 0x3D \<and> \<not> is_ascii_whitespace c"
  shows "atob (pad_to_multiple_of_4 s) = Inr (map of_int (b64_bytes (map (\<lambda>c. the (b64_index c)) s)))"
proof -
  have "\<not> is_ascii_whitespace 0x3D" by (simp add: is_ascii_whitespace_def)
  with ok have f: "filter (\<lambda>c. \<not> is_ascii_whitespace c) (pad_to_multiple_of_4 s) = pad_to_multiple_of_4 s"
    by (auto simp: pad_to_multiple_of_4_def filter_id_conv)
  from ok have "strip_padding (pad_to_multiple_of_4 s) = s"
    by (intro strip_padding_pad len) blast
  with len ok show ?thesis
    unfolding atob_def f Let_def by auto
qed

lemma url_to_standard_map: "url_to_standard s = map std_char s"
  by (simp add: url_to_standard_def std_char_def)

lemma std_range:
  "0x2B \<le> c \<Longrightarrow> c \<le> 0x7A \<Longrightarrow> \<not> is_ascii_whitespace c"
  by (auto simp: is_ascii_whitespace_def)

theorem base64UrlDecode_b64url_encode:
  assumes "\<forall>b \<in> set bs. 0 \<le> b \<and> b < 256"
  shows "base64UrlDecode (b64url_encode bs) = Inr (map of_int bs)"
proof -
  let ?s = "map std_char (b64url_encode bs)"
  have len: "length ?s mod 4 \<noteq> 1" using length_b64url_encode [of bs] by simp
  have ok: "\<forall>c \<in> set ?s. b64_index c \<noteq> None \<and> c \<noteq> 0x3D \<and> \<not> is_ascii_whitespace c"
  proof
    fix c assume "c \<in> set ?s"
    then obtain c' where c': "c' \<in> set (b64url_encode bs)" "c = std_char c'" by auto
    from c'(1) b64url_encode_chars [OF assms] have "c' \<in> b64url_char ` {0..<64}" by blast
    then obtain i where "i \<in> {0..<64}" "c' = b64url_char i" by blast
    with c'(2) have i: "0 \<le> i" "i < 64" "c = std_char (b64url_char i)" by simp_all
    from alphabet1 [OF i(1,2)] alphabet2 [OF i(1,2)] i(3)
    show "b64_index c \<noteq> None \<and> c \<noteq> 0x3D \<and> \<not> is_ascii_whitespace c"
      by (simp add: std_range)
  qed
  have "atob (pad_to_multiple_of_4 ?s) = Inr (map of_int (b64_bytes (map (\<lambda>c. the (b64_index c)) ?s)))"
    using len ok by (rule atob_pad)
  also have "map (\<lambda>c. the (b64_index c)) ?s = map idx (b64url_encode bs)" by simp
  also have "b64_bytes \<dots> = bs" using assms by (rule decode_encode_bytes)
  finally show ?thesis
    by (simp add: base64UrlDecode_def pad_loop_eq replace_replace url_to_standard_map)
qed

lemma utf8_encode_ascii: "is_ascii s \<Longrightarrow> utf8_encode s = map uint s"
  by (induction s) (simp_all add: is_ascii_def)

lemma ascii_bytes: "is_ascii s \<Longrightarrow> \<forall>b \<in> set (map uint s). 0 \<le> b \<and> b < 256"
  by (auto simp: is_ascii_def word_less_def)

lemma base64UrlDecode_ascii:
  assumes "is_ascii s"
  shows "base64UrlDecode (b64url_encode (utf8_encode s)) = Inr s"
proof -
  have "base64UrlDecode (b64url_encode (map uint s)) = Inr (map of_int (map uint s))"
    using ascii_bytes [OF assms] by (rule base64UrlDecode_b64url_encode)
  then show ?thesis
    by (simp add: utf8_encode_ascii [OF assms] comp_def)
qed

lemma split_no_sep: "d \<notin> set s \<Longrightarrow> split d s = [s]"
  by (induction s) auto

lemma split_append: "d \<notin> set a \<Longrightarrow> split d (a @ d # rest) = a # split d rest"
  by (induction a) auto

lemma split_three:
  assumes "d \<notin> set a" "d \<notin> set b" "d \<notin> set c"
  shows "split d (a @ [d] @ b @ [d] @ c) = [a, b, c]"
  using assms by (simp add: split_append split_no_sep)

lemma dropWhile_hd: "s \<noteq> [] \<Longrightarrow> \<not> P (hd s) \<Longrightarrow> dropWhile P s = s"
  by (cases s) simp_all

lemma trim_keep:
  assumes ne: "pre \<noteq> []" and h: "\<not> is_js_whitespace (hd pre)" and l: "\<not> is_js_whitespace (last pre)"
  shows "trim (pre @ s) = pre @ rev (dropWhile is_js_whitespace (rev s))"
proof -
  from ne h have 1: "dropWhile is_js_whitespace (pre @ s) = pre @ s"
    by (intro dropWhile_hd) simp_all
  from ne l have rp: "dropWhile is_js_whitespace (rev pre) = rev pre"
    by (intro dropWhile_hd) (simp_all add: hd_rev)
  have 2: "dropWhile is_js_whitespace (rev s @ rev pre)
             = dropWhile is_js_whitespace (rev s) @ rev pre"
  proof (cases "\<forall>x \<in> set (rev s). is_js_whitespace x")
    case True
    then have "dropWhile is_js_whitespace (rev s) = []" by simp
    moreover from True have "dropWhile is_js_whitespace (rev s @ rev pre)
        = dropWhile is_js_whitespace (rev pre)"
      by (intro dropWhile_append2) blast
    ultimately show ?thesis by (simp add: rp)
  next
    case False
    then obtain x where "x \<in> set (rev s)" "\<not> is_js_whitespace x" by blast
    then show ?thesis by (rule dropWhile_append1)
  qed
  show ?thesis
    by (simp add: trim_def 1 2)
qed

lemma claim_converts_derive_date:
  assumes "claim_converts p name"
  shows "\<exists>c r. get_property p name = Inr c \<and> derive_date c = Inr r"
proof (cases "get_property p name")
  case (Inl e)
  with assms show ?thesis by (simp add: claim_converts_def)
next
  case (Inr c)
  show ?thesis
  proof (cases c)
    case None
    with Inr show ?thesis by simp
  next
    case (Some v)
    with Inr assms have "\<not> to_string_throws v"
      by (simp add: claim_converts_def split: json.splits)
    then have "\<exists>n. to_number v = Inr n"
      by (cases v) (simp_all add: to_number_def)
    with Inr Some show ?thesis
      by (auto simp: derive_date_def)
  qed
qed

lemma js_range: "0x2D \<le> c \<Longrightarrow> c \<le> 0x7A \<Longrightarrow> \<not> is_js_whitespace c"
  by (auto simp: is_js_whitespace_def word_le_def)

lemma b64url_encode_safe:
  assumes "\<forall>b \<in> set bs. 0 \<le> b \<and> b < 256" and "c \<in> set (b64url_encode bs)"
  shows "c \<noteq> 0x2E" "\<not> is_js_whitespace c"
proof -
  from assms b64url_encode_chars [OF assms(1)] have "c \<in> b64url_char ` {0..<64}" by blast
  then obtain i where i: "0 \<le> i" "i < 64" "c = b64url_char i" by auto
  from alphabet2 [OF i(1,2)] i(3) show "c \<noteq> 0x2E" "\<not> is_js_whitespace c"
    by (simp_all add: js_range)
qed

lemma trim_encode_token:
  assumes "is_ascii ht" "is_ascii pt"
  shows "trim (encode_token ht pt sig) =
           b64url_encode (utf8_encode ht) @ [0x2E] @ b64url_encode (utf8_encode pt) @ [0x2E]
           @ rev (dropWhile is_js_whitespace (rev sig))"
proof -
  let ?eh = "b64url_encode (utf8_encode ht)"
  let ?ep = "b64url_encode (utf8_encode pt)"
  let ?pre = "?eh @ [0x2E] @ ?ep @ [0x2E]"
  have dot: "\<not> is_js_whitespace 0x2E" by (simp add: is_js_whitespace_def)
  have ne: "?pre \<noteq> []" by simp
  have l: "\<not> is_js_whitespace (last ?pre)" using dot by simp
  have h: "\<not> is_js_whitespace (hd ?pre)"
  proof (cases "?eh = []")
    case True
    with dot show ?thesis by simp
  next
    case False
    then have "hd ?eh \<in> set ?eh" by simp
    with b64url_encode_safe(2) [of "utf8_encode ht" "hd ?eh"] ascii_bytes [OF assms(1)]
    have "\<not> is_js_whitespace (hd ?eh)"
      by (simp add: utf8_encode_ascii [OF assms(1)])
    with False show ?thesis by simp
  qed
  from trim_keep [OF ne h l, of sig] show ?thesis
    by (simp add: encode_token_def)
qed

subsection \<open>What the decoder accepts\<close>

lemma b64_index_alphabet: "b64_index c \<noteq> None \<longleftrightarrow> in_base64_alphabet c"
  by (simp add: b64_index_def in_base64_alphabet_def)

lemma strip_padding_eq: "strip_padding t = without_padding t"
proof (cases "length t mod 4 = 0")
  case False
  then show ?thesis by (simp add: strip_padding_def without_padding_def)
next
  case True
  show ?thesis
  proof (cases "rev t")
    case Nil
    then show ?thesis by (simp add: strip_padding_def without_padding_def)
  next
    case (Cons a u)
    then have t: "t = rev u @ [a]" by (metis rev.simps(2) rev_rev_ident)
    show ?thesis
    proof (cases u)
      case Nil
      with True t show ?thesis by simp
    next
      case (Cons b r)
      with t have t': "t = rev r @ [b, a]" by simp
      show ?thesis
        unfolding strip_padding_def without_padding_def
        by (simp add: t' butlast_append)
    qed
  qed
qed

lemma atob_fails_iff: "(\<exists>e. atob s = Inl e) \<longleftrightarrow> \<not> forgiving_base64 s"
  unfolding atob_def forgiving_base64_def Let_def strip_padding_eq
  by (auto simp: list_all_iff b64_index_alphabet [symmetric])

lemma alphabet_not_special:
  assumes "in_base64_alphabet c"
  shows "c \<noteq> 0x3D" "\<not> is_ascii_whitespace c"
  using assms by (auto simp: in_base64_alphabet_def is_ascii_whitespace_def)

lemma filter_alphabet:
  "list_all in_base64_alphabet b \<Longrightarrow> filter (\<lambda>c. \<not> is_ascii_whitespace c) b = b"
  by (simp add: list_all_iff filter_id_conv alphabet_not_special)

lemma last_alphabet: "list_all in_base64_alphabet b \<Longrightarrow> b \<noteq> [] \<Longrightarrow> last b \<noteq> 0x3D"
  using alphabet_not_special(1) [of "last b"] by (auto simp: list_all_iff)

lemma valid_is_forgiving:
  assumes "valid_base64 s"
  shows "forgiving_base64 s"
proof -
  have ws: "\<not> is_ascii_whitespace 0x3D" by (simp add: is_ascii_whitespace_def)
  from assms have len: "length s mod 4 = 0" by (simp add: valid_base64_def)
  from assms consider
      (none) "list_all in_base64_alphabet s"
    | (one) b where "s = b @ [0x3D]" "list_all in_base64_alphabet b"
    | (two) b where "s = b @ [0x3D, 0x3D]" "list_all in_base64_alphabet b"
  proof -
    assume n: "list_all in_base64_alphabet s \<Longrightarrow> thesis"
      and o: "\<And>b. s = b @ [0x3D] \<Longrightarrow> list_all in_base64_alphabet b \<Longrightarrow> thesis"
      and t: "\<And>b. s = b @ [0x3D, 0x3D] \<Longrightarrow> list_all in_base64_alphabet b \<Longrightarrow> thesis"
    from assms have
      "list_all in_base64_alphabet s
       \<or> (s \<noteq> [] \<and> last s = 0x3D \<and> list_all in_base64_alphabet (butlast s))
       \<or> (2 \<le> length s \<and> last s = 0x3D \<and> last (butlast s) = 0x3D
          \<and> list_all in_base64_alphabet (butlast (butlast s)))"
      by (simp add: valid_base64_def)
    then show thesis
    proof (elim disjE conjE)
      assume "list_all in_base64_alphabet s"
      then show thesis by (rule n)
    next
      assume a: "s \<noteq> []" "last s = 0x3D" "list_all in_base64_alphabet (butlast s)"
      from a(1,2) have "s = butlast s @ [0x3D]" by (metis append_butlast_last_id)
      then show thesis using a(3) by (rule o)
    next
      assume a: "2 \<le> length s" "last s = 0x3D" "last (butlast s) = 0x3D"
        "list_all in_base64_alphabet (butlast (butlast s))"
      from a(1) have ne: "s \<noteq> []" "butlast s \<noteq> []" by (auto simp: length_0_conv [symmetric] simp del: length_0_conv)
      from ne(1) a(2) have "s = butlast s @ [0x3D]" by (metis append_butlast_last_id)
      moreover from ne(2) a(3) have "butlast s = butlast (butlast s) @ [0x3D]"
        by (metis append_butlast_last_id)
      ultimately have "s = butlast (butlast s) @ [0x3D, 0x3D]" by (metis append.assoc append_Cons append_Nil)
      then show thesis using a(4) by (rule t)
    qed
  qed
  then show ?thesis
  proof cases
    case none
    have "without_padding s = s"
    proof (cases "s = []")
      case True
      then show ?thesis by (simp add: without_padding_def)
    next
      case False
      with last_alphabet [OF none] show ?thesis by (simp add: without_padding_def)
    qed
    with none len show ?thesis
      by (simp add: forgiving_base64_def filter_alphabet)
  next
    case (one b)
    from len one(1) have lb: "length b mod 4 = 3" by (simp add: mod_Suc split: if_splits)
    then have bne: "b \<noteq> []" by auto
    have f: "filter (\<lambda>c. \<not> is_ascii_whitespace c) s = s"
      using ws by (simp add: one filter_alphabet)
    have "without_padding s = b"
      using len bne last_alphabet [OF one(2) bne]
      by (simp add: without_padding_def one(1))
    with lb one(2) show ?thesis
      by (simp add: forgiving_base64_def f)
  next
    case (two b)
    from len two(1) have lb: "length b mod 4 = 2" by (simp add: mod_Suc split: if_splits)
    have f: "filter (\<lambda>c. \<not> is_ascii_whitespace c) s = s"
      using ws by (simp add: two filter_alphabet)
    have "without_padding s = b"
      using len by (simp add: without_padding_def two(1) butlast_append)
    with lb two(2) show ?thesis
      by (simp add: forgiving_base64_def f)
  qed
qed

lemma failed_segment_fails_decode:
  assumes "split 0x2E (trim token) = [p0, p1, p2]"
    and "(\<exists>e. base64UrlDecode p0 = Inl e) \<or> (\<exists>e. base64UrlDecode p1 = Inl e)"
  shows "decodeJWT now token = Inr None"
  using assms(2)
  by (auto simp: decodeJWT_three_parts [OF assms(1)] try_block_def split: sum.splits)

subsection \<open>Segment count\<close>

text \<open>
  C4. An input whose trimmed form does not split on \<^verbatim>\<open>.\<close> into exactly 3 segments is
  never decoded: \<^verbatim>\<open>decodeJWT\<close> returns \<^verbatim>\<open>null\<close>, whatever the clock.
\<close>

theorem segment_count:
  "length (split 0x2E (trim token)) \<noteq> 3 \<Longrightarrow> decodeJWT now token = Inr None"
  by (simp add: decodeJWT_def Let_def)

theorem segment_count_witness:
  "length (split 0x2E (trim (js ''not.a.validtoken.extra''))) \<noteq> 3
   \<and> decodeJWT 0 (js ''not.a.validtoken.extra'') = Inr None"
proof -
  have h: "length (split 0x2E (trim (js ''not.a.validtoken.extra''))) \<noteq> 3"
    by code_simp
  from segment_count [OF h, of 0] h show ?thesis by simp
qed

subsection \<open>The steps of base64UrlDecode\<close>

text \<open>
  C5, as the code has it. For every segment, \<^verbatim>\<open>base64UrlDecode\<close> replaces \<^verbatim>\<open>-\<close> by \<^verbatim>\<open>+\<close> and
  \<^verbatim>\<open>_\<close> by \<^verbatim>\<open>/\<close>, pads the result on the right with \<^verbatim>\<open>=\<close> to a length that is a multiple
  of 4, and decodes it with \<^verbatim>\<open>atob\<close>, a forgiving base64 decoder. It fails exactly when the
  padded text, with ASCII whitespace ignored and one or two final \<^verbatim>\<open>=\<close> dropped, has a
  length of 1 modulo 4 or a character outside the base64 alphabet; so it never fails on
  valid base64. It returns the bytes that a base64url text encodes. A failure on the
  header or the payload segment makes \<^verbatim>\<open>decodeJWT\<close> return \<^verbatim>\<open>null\<close>.
\<close>

theorem base64UrlDecode_forgiving:
  "base64UrlDecode str =
     (case atob (pad_to_multiple_of_4 (url_to_standard str)) of
        Inl e \<Rightarrow> Inl (Error (js ''Invalid base64 encoding''))
      | Inr s \<Rightarrow> Inr s)
   \<and> length (pad_to_multiple_of_4 (url_to_standard str)) mod 4 = 0
   \<and> ((\<exists>e. base64UrlDecode str = Inl e)
        \<longleftrightarrow> \<not> forgiving_base64 (pad_to_multiple_of_4 (url_to_standard str)))
   \<and> (valid_base64 (pad_to_multiple_of_4 (url_to_standard str))
        \<longrightarrow> (\<exists>s. base64UrlDecode str = Inr s))
   \<and> ((\<forall>b \<in> set bs. 0 \<le> b \<and> b < 256)
        \<longrightarrow> base64UrlDecode (b64url_encode bs) = Inr (map of_int bs))
   \<and> (split 0x2E (trim token) = [p0, p1, p2]
        \<and> ((\<exists>e. base64UrlDecode p0 = Inl e) \<or> (\<exists>e. base64UrlDecode p1 = Inl e))
        \<longrightarrow> decodeJWT now token = Inr None)"
proof -
  let ?p = "pad_to_multiple_of_4 (url_to_standard str)"
  have steps: "base64UrlDecode str =
     (case atob ?p of Inl e \<Rightarrow> Inl (Error (js ''Invalid base64 encoding'')) | Inr s \<Rightarrow> Inr s)"
    by (simp add: base64UrlDecode_def pad_loop_eq replace_replace)
  have fails: "(\<exists>e. base64UrlDecode str = Inl e) \<longleftrightarrow> \<not> forgiving_base64 ?p"
    unfolding steps atob_fails_iff [symmetric] by (auto split: sum.splits)
  have valid: "\<exists>s. base64UrlDecode str = Inr s" if "valid_base64 ?p"
  proof -
    from that have "forgiving_base64 ?p" by (rule valid_is_forgiving)
    with fails have "\<not> (\<exists>e. base64UrlDecode str = Inl e)" by simp
    then show ?thesis by (cases "base64UrlDecode str") auto
  qed
  from steps fails valid show ?thesis
    by (auto simp: length_pad base64UrlDecode_b64url_encode
             intro: failed_segment_fails_decode)
qed

theorem base64UrlDecode_forgiving_witness:
  "base64UrlDecode (js ''e-_'') = Inr [0x7B, 0xEF]
   \<and> valid_base64 (js ''e+/='')
   \<and> b64url_encode [0x7B, 0xEF] = js ''e-8''
   \<and> base64UrlDecode (js ''e-8'') = Inr [0x7B, 0xEF]
   \<and> (\<exists>e. base64UrlDecode (js ''!!!invalid_base64!!!'') = Inl e)
   \<and> \<not> forgiving_base64 (js ''!!!invalid/base64!!!'')
   \<and> decodeJWT 0 (js ''!!!invalid_base64!!!.e30.x'') = Inr None"
proof -
  have p: "pad_to_multiple_of_4 (url_to_standard (js ''e-_'')) = js ''e+/=''"
    and q: "pad_to_multiple_of_4 (url_to_standard (js ''!!!invalid_base64!!!''))
              = js ''!!!invalid/base64!!!''"
    by code_simp+
  have a: "atob (js ''e+/='') = Inr [0x7B, 0xEF]"
    by code_simp
  have v: "valid_base64 (js ''e+/='')"
    by code_simp
  have n: "\<not> forgiving_base64 (js ''!!!invalid/base64!!!'')"
    by code_simp
  have e: "b64url_encode [0x7B, 0xEF] = js ''e-8''"
    by code_simp
  have s: "split 0x2E (trim (js ''!!!invalid_base64!!!.e30.x''))
             = [js ''!!!invalid_base64!!!'', js ''e30'', js ''x'']"
    by code_simp
  note t1 = base64UrlDecode_forgiving [of "js ''e-_''" "[0x7B, 0xEF]"
      "js ''!!!invalid_base64!!!.e30.x''" "js ''!!!invalid_base64!!!''" "js ''e30''" "js ''x''" 0]
  note t2 = base64UrlDecode_forgiving [of "js ''!!!invalid_base64!!!''" "[]" "[]" "[]" "[]" "[]" 0]
  from t2 [THEN conjunct2, THEN conjunct2, THEN conjunct1] q n
  have f: "\<exists>e. base64UrlDecode (js ''!!!invalid_base64!!!'') = Inl e"
    by simp
  from t1 p a have d: "base64UrlDecode (js ''e-_'') = Inr [0x7B, 0xEF]"
    by simp
  from t1 have r: "base64UrlDecode (b64url_encode [0x7B, 0xEF]) = Inr (map of_int [0x7B, 0xEF])"
    by simp
  from t1 s f have j: "decodeJWT 0 (js ''!!!invalid_base64!!!.e30.x'') = Inr None"
    by blast
  from d v e r f n j show ?thesis by simp
qed

text \<open>
  The claim as it is worded fails: the segment \<^verbatim>\<open>e3 0\<close> is padded to itself, a text that
  is not valid base64 (the space is outside the alphabet), and is decoded to \<^verbatim>\<open>{}\<close>.
\<close>

theorem invalid_base64_is_decoded:
  "pad_to_multiple_of_4 (url_to_standard (js ''e3 0'')) = js ''e3 0''
   \<and> \<not> valid_base64 (js ''e3 0'')
   \<and> \<not> in_base64_alphabet 0x20
   \<and> base64UrlDecode (js ''e3 0'') = Inr (js ''{}'')"
  by code_simp

subsection \<open>Totality\<close>

text \<open>
  C7. For every input and every clock, \<^verbatim>\<open>decodeJWT\<close> returns: an object or \<^verbatim>\<open>null\<close>. No
  exception of the splitting, of the base64 decoding, of the JSON parsing or of the
  claim access leaves the function.
\<close>

theorem decodeJWT_total: "\<exists>r. decodeJWT now token = Inr r"
  by (simp add: decodeJWT_def Let_def split: sum.splits)

theorem decodeJWT_total_witness:
  "decodeJWT 0 (js ''!!!invalid_base64!!!.e30.x'') = Inr None"
proof -
  from decodeJWT_total [of 0 "js ''!!!invalid_base64!!!.e30.x''"]
  obtain r where r: "decodeJWT 0 (js ''!!!invalid_base64!!!.e30.x'') = Inr r"
    by blast
  moreover have "decodeJWT 0 (js ''!!!invalid_base64!!!.e30.x'') = Inr None"
    by code_simp
  ultimately show ?thesis by simp
qed

subsection \<open>Missing claims and the expired state\<close>

text \<open>
  C8. In every decoded token whose payload has no \<^verbatim>\<open>exp\<close> key, \<^verbatim>\<open>expiresAt\<close> is \<^verbatim>\<open>null\<close> and
  \<^verbatim>\<open>isExpired\<close> is false; in every decoded token whose payload has no \<^verbatim>\<open>iat\<close> key,
  \<^verbatim>\<open>issuedAt\<close> is \<^verbatim>\<open>null\<close>.
\<close>

theorem missing_claims:
  assumes "decodeJWT now token = Inr (Some d)"
  shows "(\<not> has_own_property (payload d) (js ''exp'') \<longrightarrow> expiresAt d = None \<and> \<not> isExpired d)
       \<and> (\<not> has_own_property (payload d) (js ''iat'') \<longrightarrow> issuedAt d = None)"
proof -
  from decodeJWT_SomeD [OF assms] obtain p0 p1 p2 where "try_block now p0 p1 p2 = Inr d"
    by blast
  from try_block_InrD [OF this] obtain ex ia where
    ex: "get_property (payload d) (js ''exp'') = Inr ex" "derive_date ex = Inr (expiresAt d)"
    and ia: "get_property (payload d) (js ''iat'') = Inr ia" "derive_date ia = Inr (issuedAt d)"
    and e: "isExpired d = (case expiresAt d of None \<Rightarrow> False | Some e \<Rightarrow> date_less e (DateMs now))"
    by blast
  show ?thesis
  proof (intro conjI impI)
    assume "\<not> has_own_property (payload d) (js ''exp'')"
    with ex have "ex = None" by (auto dest: get_property_absent)
    with ex show x: "expiresAt d = None" by simp
    with e show "\<not> isExpired d" by simp
  next
    assume "\<not> has_own_property (payload d) (js ''iat'')"
    with ia have "ia = None" by (auto dest: get_property_absent)
    with ia show "issuedAt d = None" by simp
  qed
qed

theorem missing_claims_witness:
  "decodeJWT 1700000000000
     (js ''eyJhbGciOiJIUzI1NiIsInR5cCI6IkpXVCJ9.eyJzdWIiOiIxMjM0NTY3ODkwIn0.sig'')
   = Inr (Some \<lparr> header = JObj [(js ''alg'', JStr (js ''HS256'')), (js ''typ'', JStr (js ''JWT''))],
                  payload = JObj [(js ''sub'', JStr (js ''1234567890''))],
                  signature = js ''sig'', isExpired = False, expiresAt = None,
                  issuedAt = None \<rparr>)
   \<and> \<not> has_own_property (JObj [(js ''sub'', JStr (js ''1234567890''))]) (js ''exp'')
   \<and> \<not> has_own_property (JObj [(js ''sub'', JStr (js ''1234567890''))]) (js ''iat'')"
proof -
  let ?d = "\<lparr> header = JObj [(js ''alg'', JStr (js ''HS256'')), (js ''typ'', JStr (js ''JWT''))],
              payload = JObj [(js ''sub'', JStr (js ''1234567890''))],
              signature = js ''sig'', isExpired = False, expiresAt = None,
              issuedAt = None \<rparr>"
  have h: "decodeJWT 1700000000000
     (js ''eyJhbGciOiJIUzI1NiIsInR5cCI6IkpXVCJ9.eyJzdWIiOiIxMjM0NTY3ODkwIn0.sig'') = Inr (Some ?d)"
    by code_simp
  have k: "\<not> has_own_property (JObj [(js ''sub'', JStr (js ''1234567890''))]) (js ''exp'')"
          "\<not> has_own_property (JObj [(js ''sub'', JStr (js ''1234567890''))]) (js ''iat'')"
    by code_simp+
  from missing_claims [OF h] h k show ?thesis by simp
qed

text \<open>
  C10. For every input and every clock: a decoded token with \<^verbatim>\<open>isExpired = true\<close> has an
  \<^verbatim>\<open>expiresAt\<close> that is not \<^verbatim>\<open>null\<close>.
\<close>

theorem expired_has_expiry:
  assumes "decodeJWT now token = Inr (Some d)" and "isExpired d"
  shows "expiresAt d \<noteq> None"
proof -
  from decodeJWT_SomeD [OF assms(1)] obtain p0 p1 p2 where "try_block now p0 p1 p2 = Inr d"
    by blast
  from try_block_InrD [OF this] assms(2) show ?thesis
    by (auto split: option.splits)
qed

theorem expired_has_expiry_witness:
  "decodeJWT 1700000000000 (js ''eyJhbGciOiJub25lIn0.eyJleHAiOjF9.sig'')
   = Inr (Some \<lparr> header = JObj [(js ''alg'', JStr (js ''none''))],
                  payload = JObj [(js ''exp'', JNum (Fin 1))],
                  signature = js ''sig'', isExpired = True, expiresAt = Some (DateMs 1000),
                  issuedAt = None \<rparr>)"
proof -
  let ?d = "\<lparr> header = JObj [(js ''alg'', JStr (js ''none''))],
              payload = JObj [(js ''exp'', JNum (Fin 1))],
              signature = js ''sig'', isExpired = True, expiresAt = Some (DateMs 1000),
              issuedAt = None \<rparr>"
  have h: "decodeJWT 1700000000000 (js ''eyJhbGciOiJub25lIn0.eyJleHAiOjF9.sig'') = Inr (Some ?d)"
    by code_simp
  have e: "isExpired ?d" by simp
  from expired_has_expiry [OF h e] h show ?thesis by simp
qed

subsection \<open>The expiration boundary\<close>

text \<open>
  C6. Whenever \<^verbatim>\<open>expiresAt\<close> is derived (is not \<^verbatim>\<open>null\<close>), \<^verbatim>\<open>isExpired\<close> is the strict
  comparison of \<^verbatim>\<open>expiresAt\<close> with the clock. In particular, for a payload whose \<^verbatim>\<open>exp\<close> is
  a whole number \<open>n\<close> of seconds within the range of dates, \<^verbatim>\<open>expiresAt\<close> is \<open>1000 * n\<close>
  milliseconds, and the token is not expired when that instant is the clock's or one
  second after it, and is expired when it is one second before it.
\<close>

theorem expiration_boundary:
  assumes "decodeJWT now token = Inr (Some d)" and "expiresAt d = Some e"
  shows "isExpired d = date_less e (DateMs now)
       \<and> (\<forall>n. get_property (payload d) (js ''exp'') = Inr (Some (JNum (Fin (of_int n))))
               \<and> \<bar>n\<bar> \<le> 8640000000000
             \<longrightarrow> e = DateMs (1000 * n)
                \<and> (1000 * n = now \<longrightarrow> \<not> isExpired d)
                \<and> (1000 * n = now + 1000 \<longrightarrow> \<not> isExpired d)
                \<and> (1000 * n = now - 1000 \<longrightarrow> isExpired d))"
proof -
  from decodeJWT_SomeD [OF assms(1)] obtain p0 p1 p2 where "try_block now p0 p1 p2 = Inr d"
    by blast
  from try_block_InrD [OF this] obtain ex where
    ex: "get_property (payload d) (js ''exp'') = Inr ex" "derive_date ex = Inr (expiresAt d)"
    and "isExpired d = (case expiresAt d of None \<Rightarrow> False | Some e \<Rightarrow> date_less e (DateMs now))"
    by blast
  with assms(2) have cmp: "isExpired d = date_less e (DateMs now)" by simp
  have "e = DateMs (1000 * n)"
    if "get_property (payload d) (js ''exp'') = Inr (Some (JNum (Fin (of_int n))))"
      and "\<bar>n\<bar> \<le> 8640000000000" for n
  proof -
    from that(1) ex(1) have "ex = Some (JNum (Fin (of_int n)))" by simp
    with ex(2) assms(2) derive_date_integer [OF that(2)] show ?thesis
      by (simp split: if_splits)
  qed
  with cmp show ?thesis
    by (auto simp: date_less_def)
qed

theorem expiration_boundary_witness:
  "decodeJWT 1700000000000 (js ''eyJhbGciOiJub25lIn0.eyJleHAiOjE3MDAwMDAwMDB9.sig'')
     = Inr (Some \<lparr> header = JObj [(js ''alg'', JStr (js ''none''))],
                    payload = JObj [(js ''exp'', JNum (Fin 1700000000))],
                    signature = js ''sig'', isExpired = False,
                    expiresAt = Some (DateMs 1700000000000), issuedAt = None \<rparr>)
   \<and> decodeJWT 1700000001000 (js ''eyJhbGciOiJub25lIn0.eyJleHAiOjE3MDAwMDAwMDB9.sig'')
     = Inr (Some \<lparr> header = JObj [(js ''alg'', JStr (js ''none''))],
                    payload = JObj [(js ''exp'', JNum (Fin 1700000000))],
                    signature = js ''sig'', isExpired = True,
                    expiresAt = Some (DateMs 1700000000000), issuedAt = None \<rparr>)"
proof -
  let ?t = "js ''eyJhbGciOiJub25lIn0.eyJleHAiOjE3MDAwMDAwMDB9.sig''"
  let ?d = "\<lambda>b. \<lparr> header = JObj [(js ''alg'', JStr (js ''none''))],
                 payload = JObj [(js ''exp'', JNum (Fin 1700000000))],
                 signature = js ''sig'', isExpired = b,
                 expiresAt = Some (DateMs 1700000000000), issuedAt = None \<rparr>"
  have g: "get_property (JObj [(js ''exp'', JNum (Fin 1700000000))]) (js ''exp'')
             = Inr (Some (JNum (Fin (of_int 1700000000))))"
    by code_simp
  have a: "decodeJWT 1700000000000 ?t = Inr (Some (?d (isExpired (?d False))))"
    by code_simp
  have b: "decodeJWT 1700000001000 ?t = Inr (Some (?d (isExpired (?d True))))"
    by code_simp
  from expiration_boundary [OF a] g have "\<not> isExpired (?d (isExpired (?d False)))"
    by simp
  moreover from expiration_boundary [OF b] g have "isExpired (?d (isExpired (?d True)))"
    by simp
  ultimately show ?thesis using a b by simp
qed

subsection \<open>Claim value formatting\<close>

text \<open>
  C9. For every claim name and every JSON value: under the names \<^verbatim>\<open>exp\<close>, \<^verbatim>\<open>iat\<close> and
  \<^verbatim>\<open>nbf\<close> a Number is displayed as the locale-formatted date of that many seconds since
  the epoch (for a whole number \<open>n\<close> of seconds within the range of dates, the date of
  \<open>1000 * n\<close> milliseconds); every other combination of name and value, a value that is
  not a Number under these names included, is displayed as its JSON stringification.
\<close>

theorem claim_value_formatting:
  "(name \<in> {js ''exp'', js ''iat'', js ''nbf''}
      \<longrightarrow> displayValue toLocaleString JSON_stringify name (JNum x)
            = toLocaleString (new_Date (times_1000 x)))
   \<and> (name \<in> {js ''exp'', js ''iat'', js ''nbf''} \<and> \<bar>n\<bar> \<le> 8640000000000
      \<longrightarrow> displayValue toLocaleString JSON_stringify name (JNum (Fin (of_int n)))
            = toLocaleString (DateMs (1000 * n)))
   \<and> (name \<notin> {js ''exp'', js ''iat'', js ''nbf''} \<or> (\<forall>x. v \<noteq> JNum x)
      \<longrightarrow> displayValue toLocaleString JSON_stringify name v = JSON_stringify v)"
proof (intro conjI impI)
  assume "name \<in> {js ''exp'', js ''iat'', js ''nbf''}"
  then show "displayValue toLocaleString JSON_stringify name (JNum x)
            = toLocaleString (new_Date (times_1000 x))"
    by (auto simp: displayValue_def)
next
  assume a: "name \<in> {js ''exp'', js ''iat'', js ''nbf''} \<and> \<bar>n\<bar> \<le> 8640000000000"
  then have b: "\<bar>n\<bar> \<le> 8640000000000" by (rule conjunct2)
  then have "\<bar>1000 * n\<bar> \<le> 8640000000000000" by simp
  then have "new_Date (Fin (of_int (1000 * n))) = DateMs (1000 * n)"
    by (rule new_Date_of_int)
  moreover from b have "times_1000 (Fin (of_int n)) = Fin (of_int (1000 * n))"
    by (rule times_1000_of_int)
  ultimately have "new_Date (times_1000 (Fin (of_int n))) = DateMs (1000 * n)"
    by (simp only:)
  with a show "displayValue toLocaleString JSON_stringify name (JNum (Fin (of_int n)))
            = toLocaleString (DateMs (1000 * n))"
    by (auto simp: displayValue_def)
next
  assume "name \<notin> {js ''exp'', js ''iat'', js ''nbf''} \<or> (\<forall>x. v \<noteq> JNum x)"
  then show "displayValue toLocaleString JSON_stringify name v = JSON_stringify v"
    by (auto simp: displayValue_def split: json.splits)
qed

theorem claim_value_formatting_witness:
  "displayValue (\<lambda>d. case d of DateMs t \<Rightarrow> js ''date'' | InvalidDate \<Rightarrow> js ''Invalid Date'')
     (\<lambda>v. js ''json'') (js ''exp'') (JNum (Fin 1)) = js ''date''
   \<and> displayValue (\<lambda>d. case d of DateMs t \<Rightarrow> js ''date'' | InvalidDate \<Rightarrow> js ''Invalid Date'')
     (\<lambda>v. js ''json'') (js ''exp'') (JStr (js ''1'')) = js ''json''
   \<and> displayValue (\<lambda>d. case d of DateMs t \<Rightarrow> js ''date'' | InvalidDate \<Rightarrow> js ''Invalid Date'')
     (\<lambda>v. js ''json'') (js ''sub'') (JNum (Fin 1)) = js ''json''"
proof -
  let ?L = "\<lambda>d. case d of DateMs t \<Rightarrow> js ''date'' | InvalidDate \<Rightarrow> js ''Invalid Date''"
  let ?S = "\<lambda>v::json. js ''json''"
  have n: "js ''exp'' \<in> {js ''exp'', js ''iat'', js ''nbf''}" by simp
  have m: "js ''sub'' \<notin> {js ''exp'', js ''iat'', js ''nbf''}" by code_simp
  note t1 = claim_value_formatting [of "js ''exp''" ?L ?S "Fin 1" 1 "JStr (js ''1'')"]
  note t2 = claim_value_formatting [of "js ''sub''" ?L ?S "Fin 1" 1 "JNum (Fin 1)"]
  from t1 [THEN conjunct2, THEN conjunct1] n
  have "displayValue ?L ?S (js ''exp'') (JNum (Fin 1)) = js ''date''"
    by simp
  moreover from t1 [THEN conjunct2, THEN conjunct2]
  have "displayValue ?L ?S (js ''exp'') (JStr (js ''1'')) = js ''json''"
    by simp
  moreover from t2 [THEN conjunct2, THEN conjunct2] m
  have "displayValue ?L ?S (js ''sub'') (JNum (Fin 1)) = js ''json''"
    by simp
  ultimately show ?thesis by simp
qed

subsection \<open>The shape of header and payload\<close>

lemma get_property_non_object:
  "p \<noteq> JNull \<Longrightarrow> \<forall>kvs. p \<noteq> JObj kvs \<Longrightarrow> get_property p name = Inr None"
  by (cases p) (simp_all add: get_property_def)

text \<open>
  C2, as the code has it. A decoded token holds as header and payload exactly the JSON
  values that the decoded header and payload segments parse to. The header may be any
  JSON value and the payload any JSON value but \<^verbatim>\<open>null\<close>: a payload that is an array, a
  string, a number or a boolean is decoded (with no expiry and no issue date), and only
  the payload \<^verbatim>\<open>null\<close> is a decode failure.
\<close>

theorem header_and_payload_are_the_parsed_segments:
  "(decodeJWT now token = Inr (Some d) \<longrightarrow>
      (\<exists>p0 p1 p2 ht pt.
          split 0x2E (trim token) = [p0, p1, p2]
        \<and> base64UrlDecode p0 = Inr ht \<and> JSON_parse ht = Inr (header d)
        \<and> base64UrlDecode p1 = Inr pt \<and> JSON_parse pt = Inr (payload d))
      \<and> payload d \<noteq> JNull)
   \<and> (split 0x2E (trim token) = [p0, p1, p2]
        \<and> base64UrlDecode p0 = Inr ht \<and> JSON_parse ht = Inr h
        \<and> base64UrlDecode p1 = Inr pt \<and> JSON_parse pt = Inr p \<longrightarrow>
          (p = JNull \<longrightarrow> decodeJWT now token = Inr None)
        \<and> (p \<noteq> JNull \<and> (\<forall>kvs. p \<noteq> JObj kvs) \<longrightarrow>
             decodeJWT now token =
               Inr (Some \<lparr> header = h, payload = p, signature = p2, isExpired = False,
                            expiresAt = None, issuedAt = None \<rparr>)))"
proof (intro conjI impI)
  assume dec: "decodeJWT now token = Inr (Some d)"
  from decodeJWT_SomeD [OF dec] obtain p0 p1 p2 where
    parts: "split 0x2E (trim token) = [p0, p1, p2]" and tb: "try_block now p0 p1 p2 = Inr d"
    by blast
  from try_block_InrD [OF tb] obtain ht pt ex where
    *: "base64UrlDecode p0 = Inr ht" "JSON_parse ht = Inr (header d)"
       "base64UrlDecode p1 = Inr pt" "JSON_parse pt = Inr (payload d)"
    and ex: "get_property (payload d) (js ''exp'') = Inr ex"
    by blast
  from parts * show "\<exists>p0 p1 p2 ht pt.
          split 0x2E (trim token) = [p0, p1, p2]
        \<and> base64UrlDecode p0 = Inr ht \<and> JSON_parse ht = Inr (header d)
        \<and> base64UrlDecode p1 = Inr pt \<and> JSON_parse pt = Inr (payload d)"
    by blast
  from ex show "payload d \<noteq> JNull"
    by (auto simp: get_property_def)
next
  assume a: "split 0x2E (trim token) = [p0, p1, p2]
        \<and> base64UrlDecode p0 = Inr ht \<and> JSON_parse ht = Inr h
        \<and> base64UrlDecode p1 = Inr pt \<and> JSON_parse pt = Inr p"
    and "p = JNull"
  then show "decodeJWT now token = Inr None"
    by (simp add: decodeJWT_three_parts try_block_def get_property_def)
next
  assume a: "split 0x2E (trim token) = [p0, p1, p2]
        \<and> base64UrlDecode p0 = Inr ht \<and> JSON_parse ht = Inr h
        \<and> base64UrlDecode p1 = Inr pt \<and> JSON_parse pt = Inr p"
    and b: "p \<noteq> JNull \<and> (\<forall>kvs. p \<noteq> JObj kvs)"
  from b have "get_property p name = Inr None" for name
    by (simp add: get_property_non_object)
  with a show "decodeJWT now token =
               Inr (Some \<lparr> header = h, payload = p, signature = p2, isExpired = False,
                            expiresAt = None, issuedAt = None \<rparr>)"
    by (simp add: decodeJWT_three_parts try_block_def)
qed

theorem header_and_payload_are_the_parsed_segments_witness:
  "decodeJWT 0 (js ''bnVsbA.Ingi.x'') =
     Inr (Some \<lparr> header = JNull, payload = JStr (js ''x''), signature = js ''x'',
                  isExpired = False, expiresAt = None, issuedAt = None \<rparr>)
   \<and> decodeJWT 0 (js ''e30.bnVsbA.x'') = Inr None"
proof -
  have s1: "split 0x2E (trim (js ''bnVsbA.Ingi.x'')) = [js ''bnVsbA'', js ''Ingi'', js ''x'']"
    and s2: "split 0x2E (trim (js ''e30.bnVsbA.x'')) = [js ''e30'', js ''bnVsbA'', js ''x'']"
    by code_simp+
  have b1: "base64UrlDecode (js ''bnVsbA'') = Inr (js ''null'')"
    and b2: "base64UrlDecode (js ''Ingi'') = Inr (js ''\"x\"'')"
    and b3: "base64UrlDecode (js ''e30'') = Inr (js ''{}'')"
    by code_simp+
  have j1: "JSON_parse (js ''null'') = Inr JNull"
    and j2: "JSON_parse (js ''\"x\"'') = Inr (JStr (js ''x''))"
    and j3: "JSON_parse (js ''{}'') = Inr (JObj [])"
    by code_simp+
  have pre1: "split 0x2E (trim (js ''bnVsbA.Ingi.x'')) = [js ''bnVsbA'', js ''Ingi'', js ''x'']
        \<and> base64UrlDecode (js ''bnVsbA'') = Inr (js ''null'') \<and> JSON_parse (js ''null'') = Inr JNull
        \<and> base64UrlDecode (js ''Ingi'') = Inr (js ''\"x\"'')
        \<and> JSON_parse (js ''\"x\"'') = Inr (JStr (js ''x''))"
    by (intro conjI) (rule s1 b1 j1 b2 j2)+
  have pre2: "split 0x2E (trim (js ''e30.bnVsbA.x'')) = [js ''e30'', js ''bnVsbA'', js ''x'']
        \<and> base64UrlDecode (js ''e30'') = Inr (js ''{}'') \<and> JSON_parse (js ''{}'') = Inr (JObj [])
        \<and> base64UrlDecode (js ''bnVsbA'') = Inr (js ''null'') \<and> JSON_parse (js ''null'') = Inr JNull"
    by (intro conjI) (rule s2 b3 j3 b1 j1)+
  from header_and_payload_are_the_parsed_segments [THEN conjunct2, THEN mp, OF pre1, THEN conjunct2]
  have "decodeJWT 0 (js ''bnVsbA.Ingi.x'') =
     Inr (Some \<lparr> header = JNull, payload = JStr (js ''x''), signature = js ''x'',
                  isExpired = False, expiresAt = None, issuedAt = None \<rparr>)"
    by simp
  moreover
  from header_and_payload_are_the_parsed_segments [THEN conjunct2, THEN mp, OF pre2, THEN conjunct1]
  have "decodeJWT 0 (js ''e30.bnVsbA.x'') = Inr None"
    by simp
  ultimately show ?thesis by simp
qed

text \<open>
  The claim as it is worded fails: the header \<^verbatim>\<open>[]\<close> and the payload \<^verbatim>\<open>1\<close>, an array and a
  scalar, are decoded.
\<close>

theorem array_header_and_number_payload_are_decoded:
  "decodeJWT 0 (js ''W10.MQ.x'') =
     Inr (Some \<lparr> header = JArr [], payload = JNum (Fin 1), signature = js ''x'',
                  isExpired = False, expiresAt = None, issuedAt = None \<rparr>)"
  by code_simp

subsection \<open>The derivation of the expiry\<close>

lemma derive_date_truthy:
  assumes "derive_date (Some v) = Inr r" and "to_boolean (Some v)"
  shows "\<exists>n. to_number v = Inr n \<and> r = Some (new_Date (times_1000 n))"
  using assms by (auto simp: derive_date_def split: sum.splits)

text \<open>
  C1, as the code has it. In every decoded token: when the payload has no \<^verbatim>\<open>exp\<close>,
  \<^verbatim>\<open>expiresAt\<close> is \<^verbatim>\<open>null\<close> and \<^verbatim>\<open>isExpired\<close> is false; when \<^verbatim>\<open>exp\<close> is a truthy value (a Number
  other than 0, a non-empty string, \<^verbatim>\<open>true\<close>, an array or an object), \<^verbatim>\<open>expiresAt\<close> is not
  \<^verbatim>\<open>null\<close>: it is the date of the Number that \<^verbatim>\<open>exp\<close> converts to, times 1000, in
  milliseconds, which is an invalid date when \<^verbatim>\<open>exp\<close> does not convert to a number, and
  \<open>1000 * n\<close> milliseconds when \<^verbatim>\<open>exp\<close> is a whole number \<open>n\<close> of seconds within the range of
  dates. (Nothing is said of an \<^verbatim>\<open>exp\<close> that is present and falsy.)
\<close>

theorem expiry_derivation:
  assumes "decodeJWT now token = Inr (Some d)"
  shows "(\<not> has_own_property (payload d) (js ''exp'') \<longrightarrow> expiresAt d = None \<and> \<not> isExpired d)
       \<and> (\<forall>v. get_property (payload d) (js ''exp'') = Inr (Some v) \<and> to_boolean (Some v)
             \<longrightarrow> (\<exists>n. to_number v = Inr n \<and> expiresAt d = Some (new_Date (times_1000 n))))
       \<and> (\<forall>n. get_property (payload d) (js ''exp'') = Inr (Some (JNum (Fin (of_int n))))
               \<and> n \<noteq> 0 \<and> \<bar>n\<bar> \<le> 8640000000000
             \<longrightarrow> expiresAt d = Some (DateMs (1000 * n)))"
proof -
  from decodeJWT_SomeD [OF assms] obtain p0 p1 p2 where "try_block now p0 p1 p2 = Inr d"
    by blast
  from try_block_InrD [OF this] obtain ex where
    ex: "get_property (payload d) (js ''exp'') = Inr ex" "derive_date ex = Inr (expiresAt d)"
    and e: "isExpired d = (case expiresAt d of None \<Rightarrow> False | Some e \<Rightarrow> date_less e (DateMs now))"
    by blast
  have absent: "expiresAt d = None \<and> \<not> isExpired d"
    if "\<not> has_own_property (payload d) (js ''exp'')"
  proof -
    from that ex(1) have "ex = None" by (auto dest: get_property_absent)
    with ex(2) have "expiresAt d = None" by simp
    with e show ?thesis by simp
  qed
  have truthy: "\<exists>n. to_number v = Inr n \<and> expiresAt d = Some (new_Date (times_1000 n))"
    if "get_property (payload d) (js ''exp'') = Inr (Some v)" "to_boolean (Some v)" for v
  proof -
    from that(1) ex(1) have "ex = Some v" by simp
    with ex(2) that(2) show ?thesis by (auto dest: derive_date_truthy)
  qed
  have whole: "expiresAt d = Some (DateMs (1000 * n))"
    if "get_property (payload d) (js ''exp'') = Inr (Some (JNum (Fin (of_int n))))"
      "n \<noteq> 0" "\<bar>n\<bar> \<le> 8640000000000" for n
  proof -
    from that(1) ex(1) have "ex = Some (JNum (Fin (of_int n)))" by simp
    with ex(2) derive_date_integer [OF that(3)] that(2) show ?thesis by simp
  qed
  from absent truthy whole show ?thesis by blast
qed

theorem expiry_derivation_witness:
  "decodeJWT 1700000000000 (js ''eyJhbGciOiJub25lIn0.eyJleHAiOjF9.sig'')
     = Inr (Some \<lparr> header = JObj [(js ''alg'', JStr (js ''none''))],
                    payload = JObj [(js ''exp'', JNum (Fin 1))],
                    signature = js ''sig'', isExpired = True, expiresAt = Some (DateMs 1000),
                    issuedAt = None \<rparr>)
   \<and> to_boolean (Some (JNum (Fin 1)))
   \<and> to_number (JNum (Fin 1)) = Inr (Fin 1)
   \<and> new_Date (times_1000 (Fin 1)) = DateMs 1000"
proof -
  let ?d = "\<lparr> header = JObj [(js ''alg'', JStr (js ''none''))],
              payload = JObj [(js ''exp'', JNum (Fin 1))],
              signature = js ''sig'', isExpired = True, expiresAt = Some (DateMs 1000),
              issuedAt = None \<rparr>"
  have h: "decodeJWT 1700000000000 (js ''eyJhbGciOiJub25lIn0.eyJleHAiOjF9.sig'') = Inr (Some ?d)"
    by code_simp
  have g: "get_property (payload ?d) (js ''exp'') = Inr (Some (JNum (Fin (of_int 1))))"
    by code_simp
  have b: "to_boolean (Some (JNum (Fin 1)))"
    by code_simp
  from expiry_derivation [OF h, THEN conjunct2, THEN conjunct2] g
  have w: "expiresAt ?d = Some (DateMs (1000 * 1))"
    by simp
  from expiry_derivation [OF h, THEN conjunct2, THEN conjunct1] g b
  obtain n where n: "to_number (JNum (Fin 1)) = Inr n"
    "expiresAt ?d = Some (new_Date (times_1000 n))"
    by auto
  from n w have "to_number (JNum (Fin 1)) = Inr (Fin 1)"
    "new_Date (times_1000 (Fin 1)) = DateMs 1000"
    by (simp_all add: to_number_def)
  with h b show ?thesis by simp
qed

text \<open>
  The claim as it is worded fails at the payload \<^verbatim>\<open>{"exp":"abc"}\<close>: the value is no Number
  and converts to none (it converts to \<open>NaN\<close>), and \<^verbatim>\<open>expiresAt\<close> is not \<^verbatim>\<open>null\<close> but an
  invalid date.
\<close>

theorem unconvertible_exp_gives_invalid_date:
  "decodeJWT 1700000000000 (js ''eyJhbGciOiJub25lIn0.eyJleHAiOiJhYmMifQ.sig'')
     = Inr (Some \<lparr> header = JObj [(js ''alg'', JStr (js ''none''))],
                    payload = JObj [(js ''exp'', JStr (js ''abc''))],
                    signature = js ''sig'', isExpired = False, expiresAt = Some InvalidDate,
                    issuedAt = None \<rparr>)
   \<and> to_number (JStr (js ''abc'')) = Inr NaN"
  by code_simp

text \<open>
  At the payload \<^verbatim>\<open>{"exp":0}\<close> the claim \<^verbatim>\<open>exp\<close> is present and a Number, and \<^verbatim>\<open>ClaimRow\<close>
  displays it as the date of the epoch; but \<^verbatim>\<open>if (payload.exp)\<close> tests the truthiness of
  the value, and 0 is falsy: \<^verbatim>\<open>expiresAt\<close> stays \<^verbatim>\<open>null\<close> and the token is not expired, at
  every clock.
\<close>

lemma exp_zero_is_not_derived:
  "decodeJWT now (js ''eyJhbGciOiJub25lIn0.eyJleHAiOjB9.sig'') =
     Inr (Some \<lparr> header = JObj [(js ''alg'', JStr (js ''none''))],
                  payload = JObj [(js ''exp'', JNum (Fin 0))],
                  signature = js ''sig'', isExpired = False, expiresAt = None,
                  issuedAt = None \<rparr>)
   \<and> displayValue toLocaleString JSON_stringify (js ''exp'') (JNum (Fin 0))
       = toLocaleString (DateMs 0)"
  by code_simp

subsection \<open>Round trip\<close>

text \<open>
  C3, as the code has it. Let the header be any JSON value and the payload a JSON value
  that is not \<^verbatim>\<open>null\<close> and whose \<^verbatim>\<open>exp\<close> and \<^verbatim>\<open>iat\<close> convert to Numbers without an exception.
  For all JSON texts of the two that consist of ASCII characters, and every signature
  without a dot: the token of the base64url-encoded texts and the signature is decoded,
  and the decoded header and payload are the two values.
\<close>

theorem round_trip_ascii:
  assumes "JSON_parse header_text = Inr h" and "JSON_parse payload_text = Inr p"
    and "is_ascii header_text" and "is_ascii payload_text"
    and "0x2E \<notin> set sig"
    and "claim_converts p (js ''exp'')" and "claim_converts p (js ''iat'')"
  shows "\<exists>d. decodeJWT now (encode_token header_text payload_text sig) = Inr (Some d)
             \<and> header d = h \<and> payload d = p"
proof -
  let ?eh = "b64url_encode (utf8_encode header_text)"
  let ?ep = "b64url_encode (utf8_encode payload_text)"
  let ?sg = "rev (dropWhile is_js_whitespace (rev sig))"
  have bh: "\<forall>b \<in> set (utf8_encode header_text). 0 \<le> b \<and> b < 256"
    using ascii_bytes [OF assms(3)] by (simp add: utf8_encode_ascii [OF assms(3)])
  have bp: "\<forall>b \<in> set (utf8_encode payload_text). 0 \<le> b \<and> b < 256"
    using ascii_bytes [OF assms(4)] by (simp add: utf8_encode_ascii [OF assms(4)])
  have "set ?sg \<subseteq> set sig"
    using set_dropWhileD [of _ is_js_whitespace "rev sig"] by auto
  with assms(5) have d3: "0x2E \<notin> set ?sg" by blast
  have d1: "0x2E \<notin> set ?eh" using b64url_encode_safe(1) [OF bh] by blast
  have d2: "0x2E \<notin> set ?ep" using b64url_encode_safe(1) [OF bp] by blast
  have parts: "split 0x2E (trim (encode_token header_text payload_text sig)) = [?eh, ?ep, ?sg]"
    unfolding trim_encode_token [OF assms(3,4)] using d1 d2 d3 by (rule split_three)
  from claim_converts_derive_date [OF assms(6)] obtain c1 r1 where
    e: "get_property p (js ''exp'') = Inr c1" "derive_date c1 = Inr r1" by blast
  from claim_converts_derive_date [OF assms(7)] obtain c2 r2 where
    i: "get_property p (js ''iat'') = Inr c2" "derive_date c2 = Inr r2" by blast
  have "try_block now ?eh ?ep ?sg =
          Inr \<lparr> header = h, payload = p, signature = ?sg,
                isExpired = (case r1 of None \<Rightarrow> False | Some d \<Rightarrow> date_less d (DateMs now)),
                expiresAt = r1, issuedAt = r2 \<rparr>"
    unfolding try_block_def
    by (simp add: base64UrlDecode_ascii assms(1-4) e i)
  with parts show ?thesis
    by (simp add: decodeJWT_three_parts)
qed

theorem round_trip_ascii_witness:
  "encode_token (js ''{\"alg\":\"none\"}'') (js ''{\"exp\":1}'') (js ''sig'')
     = js ''eyJhbGciOiJub25lIn0.eyJleHAiOjF9.sig''
   \<and> (\<exists>d. decodeJWT 1700000000000 (js ''eyJhbGciOiJub25lIn0.eyJleHAiOjF9.sig'') = Inr (Some d)
          \<and> header d = JObj [(js ''alg'', JStr (js ''none''))]
          \<and> payload d = JObj [(js ''exp'', JNum (Fin 1))])"
proof -
  have e: "encode_token (js ''{\"alg\":\"none\"}'') (js ''{\"exp\":1}'') (js ''sig'')
             = js ''eyJhbGciOiJub25lIn0.eyJleHAiOjF9.sig''"
    by code_simp
  have h: "JSON_parse (js ''{\"alg\":\"none\"}'') = Inr (JObj [(js ''alg'', JStr (js ''none''))])"
    and p: "JSON_parse (js ''{\"exp\":1}'') = Inr (JObj [(js ''exp'', JNum (Fin 1))])"
    by code_simp+
  have a: "is_ascii (js ''{\"alg\":\"none\"}'')" "is_ascii (js ''{\"exp\":1}'')"
    by code_simp+
  have s: "0x2E \<notin> set (js ''sig'')"
    by code_simp
  have c: "claim_converts (JObj [(js ''exp'', JNum (Fin 1))]) (js ''exp'')"
    "claim_converts (JObj [(js ''exp'', JNum (Fin 1))]) (js ''iat'')"
    by code_simp+
  from round_trip_ascii [OF h p a s c, of 1700000000000] e show ?thesis
    by simp
qed

text \<open>
  The claim as it is worded fails for a signature with a dot: the token has four
  segments and is not decoded.
\<close>

theorem round_trip_fails_on_dotted_signature:
  "JSON_parse (js ''{}'') = Inr (JObj [])
   \<and> encode_token (js ''{}'') (js ''{}'') (js ''a.b'') = js ''e30.e30.a.b''
   \<and> decodeJWT 0 (encode_token (js ''{}'') (js ''{}'') (js ''a.b'')) = Inr None"
  by code_simp

text \<open>
  Two more inputs on which the round trip fails. The bytes of a text that is not ASCII
  are read by \<^verbatim>\<open>atob\<close> as one code unit each, so that the code unit U+00E9 comes back as
  the two code units U+00C3, U+00A9; and a payload whose \<^verbatim>\<open>exp\<close> is an object with an own
  property \<^verbatim>\<open>toString\<close> makes the multiplication throw, which \<^verbatim>\<open>decodeJWT\<close> turns into
  \<^verbatim>\<open>null\<close>.
\<close>

lemma round_trip_fails_on_non_ascii_text:
  "JSON_parse (js ''{\"a\":\"'' @ [0xE9] @ js ''\"}'') = Inr (JObj [(js ''a'', JStr [0xE9])])
   \<and> decodeJWT 0 (encode_token (js ''{\"a\":\"'' @ [0xE9] @ js ''\"}'') (js ''{}'') (js ''sig''))
       = Inr (Some \<lparr> header = JObj [(js ''a'', JStr [0xC3, 0xA9])], payload = JObj [],
                      signature = js ''sig'', isExpired = False, expiresAt = None,
                      issuedAt = None \<rparr>)"
  by code_simp

lemma round_trip_fails_on_unconvertible_exp:
  "JSON_parse (js ''{\"exp\":{\"toString\":0}}'')
     = Inr (JObj [(js ''exp'', JObj [(js ''toString'', JNum (Fin 0))])])
   \<and> decodeJWT 0 (encode_token (js ''{}'') (js ''{\"exp\":{\"toString\":0}}'') (js ''sig''))
       = Inr None"
  by code_simp

end
